theory Spec2Isabelle
  imports Complex_Main "HOL-Library.Word" "HOL-Library.Sublist"
begin

text \<open>
  The Helium components of Transforma Reader: the duplicate cache
  (\<open>DuplicateCache\<close>), the two-tier router (\<open>InvoiceRouter\<close>), the relay client
  (\<open>RelayClient\<close>) and the submission sequence of the controller
  (\<open>HeliumController\<close>). Each C++ function is a function of the same name over the
  state it reads and writes; the file system, the network, the clock and the session
  provider are arguments. The first part holds the model, the second its properties.
\<close>

section \<open>Strings, byte buffers and the C runtime\<close>

text \<open>
  A \<open>std::string\<close> is a \<open>string\<close>: a list of bytes that may contain NUL. A
  \<open>std::wstring\<close> (a path) is a list of 16-bit code units. A file is the list of its
  bytes. Fixed \<open>char\<close> arrays of the cache record are lists of bytes of the array's
  length.
\<close>

type_synonym wstring = "16 word list"

abbreviation NUL :: char where
  "NUL \<equiv> CHR 0x00"

text \<open>
  Reading a C string out of a buffer (\<open>std::string(entry.filename)\<close>,
  \<open>filename.c_str()\<close> handed to a C function): the bytes before the first NUL. On a
  \<open>char\<close> array with no NUL the source reads past the array, into the fields that
  follow, while \<open>c_str\<close> stops at the array's end: the two agree exactly on arrays
  that hold a NUL. The properties of records taken from an arbitrary cache state
  therefore assume \<open>filename_terminated\<close> of them.
\<close>

definition c_str :: "string \<Rightarrow> string" where
  "c_str s = takeWhile (\<lambda>c. c \<noteq> NUL) s"

text \<open>
  \<open>strncpy_s(dest, src, count)\<close> of the Microsoft C runtime, for a destination array
  \<open>dest\<close>: the first \<open>D = min count (strlen src)\<close> characters are copied and a NUL
  is appended when they fit with the terminator; the other bytes of \<open>dest\<close> stay as
  they were. When they do not fit, \<open>dest[0]\<close> is set to NUL (and the invalid
  parameter handler runs).
\<close>

definition strncpy_s :: "string \<Rightarrow> string \<Rightarrow> nat \<Rightarrow> string" where
  "strncpy_s dest src count =
     (let d = take count (c_str src) in
      if length d < length dest then d @ NUL # drop (Suc (length d)) dest
      else NUL # drop 1 dest)"

text \<open>Little-endian layout of an unsigned integer in \<open>k\<close> bytes, and reading it back.\<close>

fun le_encode :: "nat \<Rightarrow> nat \<Rightarrow> string" where
  "le_encode 0 n = []"
| "le_encode (Suc k) n = char_of (n mod 256) # le_encode k (n div 256)"

fun le_decode :: "string \<Rightarrow> nat" where
  "le_decode [] = 0"
| "le_decode (c # cs) = of_char c + 256 * le_decode cs"

text \<open>
  \<open>istream::read(buf, n)\<close>: a stream is its state (good or failed) and the bytes not
  yet consumed; \<open>buf\<close> is the content of the memory read into. A failed stream
  reads nothing. A good one overwrites the first bytes of the buffer with what is there,
  and fails when fewer than \<open>n\<close> bytes were left.
\<close>

type_synonym istream = "bool \<times> string"

definition stream_read :: "istream \<Rightarrow> string \<Rightarrow> nat \<Rightarrow> istream \<times> string" where
  "stream_read s buf n =
     (if \<not> fst s then (s, buf)
      else let got = take n (snd s)
           in ((length got = n, drop n (snd s)), got @ drop (length got) buf))"

text \<open>
  The file system as the cache sees it: the content of each file that can be opened for
  reading, and whether a path can be opened for writing (\<open>std::ofstream\<close> with
  \<open>trunc\<close> creates the file, and fails when the directory is missing or the file is
  protected). Opening the empty path fails.
\<close>

record filesystem =
  contents :: "wstring \<rightharpoonup> string"
  can_write :: "wstring \<Rightarrow> bool"

definition open_read :: "filesystem \<Rightarrow> wstring \<Rightarrow> string option" where
  "open_read fs path = (if path = [] then None else contents fs path)"

definition open_write :: "filesystem \<Rightarrow> wstring \<Rightarrow> bool" where
  "open_write fs path = (path \<noteq> [] \<and> can_write fs path)"

subsection \<open>String functions of the standard library\<close>

text \<open>
  \<open>std::string::find(needle)\<close> is the first position at which \<open>needle\<close> starts,
  \<open>None\<close> standing for \<open>npos\<close>; \<open>find(needle, pos)\<close> searches from \<open>pos\<close> on.
\<close>

fun str_find :: "string \<Rightarrow> string \<Rightarrow> nat option" where
  "str_find [] needle = (if needle = [] then Some 0 else None)"
| "str_find (c # cs) needle =
     (if prefix needle (c # cs) then Some 0 else map_option Suc (str_find cs needle))"

definition str_find_from :: "string \<Rightarrow> string \<Rightarrow> nat \<Rightarrow> nat option" where
  "str_find_from hay needle pos =
     (if length hay < pos then None
      else map_option (\<lambda>i. pos + i) (str_find (drop pos hay) needle))"

text \<open>\<open>find_last_of(chars)\<close>: the last position holding one of the characters.\<close>

fun find_last_of :: "string \<Rightarrow> string \<Rightarrow> nat option" where
  "find_last_of [] chars = None"
| "find_last_of (c # cs) chars =
     (case find_last_of cs chars of
        Some i \<Rightarrow> Some (Suc i)
      | None \<Rightarrow> if c \<in> set chars then Some 0 else None)"

text \<open>
  \<open>substr(pos)\<close> and \<open>substr(pos, n)\<close>, for \<open>pos\<close> within the string (every call of
  the program is).
\<close>

definition substr :: "string \<Rightarrow> nat \<Rightarrow> string" where
  "substr s pos = drop pos s"

definition substr_n :: "string \<Rightarrow> nat \<Rightarrow> nat \<Rightarrow> string" where
  "substr_n s pos n = take n (drop pos s)"

text \<open>\<open>toupper\<close> and \<open>tolower\<close> in the C locale: only the 26 letters change.\<close>

definition toupper :: "char \<Rightarrow> char" where
  "toupper c = (let n = of_char c :: nat in if 97 \<le> n \<and> n \<le> 122 then char_of (n - 32) else c)"

definition tolower :: "char \<Rightarrow> char" where
  "tolower c = (let n = of_char c :: nat in if 65 \<le> n \<and> n \<le> 90 then char_of (n + 32) else c)"

text \<open>\<open>std::to_string(int)\<close>: the decimal digits, after a minus sign when negative.\<close>

fun digits :: "nat \<Rightarrow> string" where
  "digits n = (if n < 10 then [char_of (48 + n)] else digits (n div 10) @ [char_of (48 + n mod 10)])"

declare digits.simps [simp del]

definition to_string :: "int \<Rightarrow> string" where
  "to_string i = (if i < 0 then CHR ''-'' # digits (nat (- i)) else digits (nat i))"

subsection \<open>Paths\<close>

text \<open>
  \<open>WideCharToMultiByte(CP_UTF8, 0, ...)\<close>: UTF-16 to UTF-8, a surrogate pair giving
  one code point of four bytes and a lone surrogate U+FFFD.
\<close>

definition utf8_encode :: "nat \<Rightarrow> string" where
  "utf8_encode cp =
     (if cp < 0x80 then [char_of cp]
      else if cp < 0x800 then [char_of (0xC0 + cp div 64), char_of (0x80 + cp mod 64)]
      else if cp < 0x10000 then
        [char_of (0xE0 + cp div 4096), char_of (0x80 + cp div 64 mod 64),
         char_of (0x80 + cp mod 64)]
      else
        [char_of (0xF0 + cp div 262144), char_of (0x80 + cp div 4096 mod 64),
         char_of (0x80 + cp div 64 mod 64), char_of (0x80 + cp mod 64)])"

definition is_high_surrogate :: "16 word \<Rightarrow> bool" where
  "is_high_surrogate w \<longleftrightarrow> 0xD800 \<le> unat w \<and> unat w < 0xDC00"

definition is_low_surrogate :: "16 word \<Rightarrow> bool" where
  "is_low_surrogate w \<longleftrightarrow> 0xDC00 \<le> unat w \<and> unat w < 0xE000"

fun WideToUtf8 :: "wstring \<Rightarrow> string" where
  "WideToUtf8 [] = []"
| "WideToUtf8 [w] =
     (if is_high_surrogate w \<or> is_low_surrogate w then utf8_encode 0xFFFD
      else utf8_encode (unat w))"
| "WideToUtf8 (w # w' # ws) =
     (if is_high_surrogate w \<and> is_low_surrogate w' then
        utf8_encode (0x10000 + (unat w - 0xD800) * 1024 + (unat w' - 0xDC00)) @ WideToUtf8 ws
      else if is_high_surrogate w \<or> is_low_surrogate w then
        utf8_encode 0xFFFD @ WideToUtf8 (w' # ws)
      else utf8_encode (unat w) @ WideToUtf8 (w' # ws))"

text \<open>
  The base file name of a path, as \<open>Route\<close>, \<open>BuildMultipartBody\<close> and
  \<open>ExtractFilename\<close> compute it: what follows the last slash or backslash of the
  UTF-8 form, the whole of it when there is none.
\<close>

definition base_filename :: "wstring \<Rightarrow> string" where
  "base_filename path =
     (let utf8 = WideToUtf8 path in
      case find_last_of utf8 [CHR 0x5C, CHR ''/''] of
        Some lastSlash \<Rightarrow> substr utf8 (lastSlash + 1)
      | None \<Rightarrow> utf8)"

text \<open>ASCII text as a wide string, for examples.\<close>

definition widen :: "string \<Rightarrow> wstring" where
  "widen s = map (\<lambda>c. of_char c) s"

subsection \<open>Double-precision arithmetic\<close>

text \<open>
  A finite \<open>double\<close> is the rational number it stands for. An operation gives the
  exact result rounded to the nearest double, ties to the even mantissa (the default
  IEEE 754 rounding): 53 bits of mantissa, and steps of \<open>2^-1074\<close> below the normal
  range. Overflow is left out: no value of the program exceeds 4.
\<close>

type_synonym double = rat

fun ilog2 :: "nat \<Rightarrow> nat" where
  "ilog2 n = (if n < 2 then 0 else Suc (ilog2 (n div 2)))"

declare ilog2.simps [simp del]

definition clog2 :: "nat \<Rightarrow> nat" where
  "clog2 n = (if n \<le> 1 then 0 else Suc (ilog2 (n - 1)))"

text \<open>For \<open>x > 0\<close>, the \<open>e\<close> with \<open>2^e \<le> x < 2^(e+1)\<close>.\<close>

definition binade :: "rat \<Rightarrow> int" where
  "binade x =
     (if 1 \<le> x then int (ilog2 (nat \<lfloor>x\<rfloor>)) else - int (clog2 (nat \<lceil>1 / x\<rceil>)))"

definition round_half_even :: "rat \<Rightarrow> int" where
  "round_half_even x =
     (let f = \<lfloor>x\<rfloor>; r = x - of_int f
      in if r < 1 / 2 then f else if 1 / 2 < r then f + 1 else if even f then f else f + 1)"

definition round_to_double :: "rat \<Rightarrow> double" where
  "round_to_double x =
     (if x = 0 then 0
      else let q = max (binade \<bar>x\<bar> - 52) (- 1074); u = 2 powi q
           in sgn x * of_int (round_half_even (\<bar>x\<bar> / u)) * u)"

definition dbl_add :: "double \<Rightarrow> double \<Rightarrow> double" where
  "dbl_add x y = round_to_double (x + y)"

definition dbl_sub :: "double \<Rightarrow> double \<Rightarrow> double" where
  "dbl_sub x y = round_to_double (x - y)"

text \<open>The decimal literal \<open>n / 100\<close> of the source, as in \<open>0.95\<close> or \<open>0.30\<close>.\<close>

definition hundredths :: "nat \<Rightarrow> double" where
  "hundredths n = round_to_double (of_nat n / 100)"

section \<open>DuplicateCache\<close>

subsection \<open>Data (DuplicateCache.h)\<close>

record CacheHeader =
  version :: "32 word"
  entryCount :: "32 word"
  lastSyncTimestamp :: "64 word"

text \<open>The default member initialisers of \<open>CacheHeader\<close>.\<close>

definition CacheHeader_default :: CacheHeader where
  "CacheHeader_default = \<lparr>version = 1, entryCount = 0, lastSyncTimestamp = 0\<rparr>"

text \<open>
  \<open>CacheEntry\<close>: \<open>filename\<close> is the 256 bytes of \<open>char filename[256]\<close>,
  \<open>firsReference\<close> the 32 bytes and \<open>submittedBy\<close> the 64 bytes of their arrays.
\<close>

record CacheEntry =
  filename :: string
  submitTimestamp :: "64 word"
  firsReference :: string
  submittedBy :: string

definition wf_entry :: "CacheEntry \<Rightarrow> bool" where
  "wf_entry e \<longleftrightarrow>
     length (filename e) = 256 \<and> length (firsReference e) = 32 \<and> length (submittedBy e) = 64"

text \<open>
  The file name array of a record holds a NUL, as it does in every record that
  \<open>AddEntry\<close> makes: reading the name as a C string ends within the array.
\<close>

definition filename_terminated :: "CacheEntry \<Rightarrow> bool" where
  "filename_terminated e \<longleftrightarrow> NUL \<in> set (filename e)"

text \<open>\<open>CacheEntry entry = {}\<close>: every byte zero.\<close>

definition CacheEntry_zero :: CacheEntry where
  "CacheEntry_zero =
     \<lparr>filename = replicate 256 NUL, submitTimestamp = 0,
      firsReference = replicate 32 NUL, submittedBy = replicate 64 NUL\<rparr>"

datatype DuplicateStatus = NotSubmitted | AlreadySubmitted | CacheUnavailable

text \<open>
  \<open>DuplicateCheckResult\<close>; its string fields carry the prefix \<open>dup_\<close> to keep them
  apart from the fields of \<open>CacheEntry\<close>.
\<close>

record DuplicateCheckResult =
  status :: DuplicateStatus
  dup_firsReference :: string
  dup_submittedBy :: string
  dup_submitTimestamp :: "64 word"

text \<open>The state of a \<open>DuplicateCache\<close> object (the mutex and the sync thread apart).\<close>

record DuplicateCache =
  m_cachePath :: wstring
  m_entries :: "CacheEntry list"
  m_filenameIndex :: "string set"

text \<open>The constructor: no path, no entries, an empty index.\<close>

definition DuplicateCache_new :: DuplicateCache where
  "DuplicateCache_new = \<lparr>m_cachePath = [], m_entries = [], m_filenameIndex = {}\<rparr>"

subsection \<open>The packed on-disk layout\<close>

text \<open>
  Under \<open>#pragma pack(1)\<close> the header is 16 bytes and an entry 360, the fields in
  declaration order, integers little-endian.
\<close>

definition bytes_of_header :: "CacheHeader \<Rightarrow> string" where
  "bytes_of_header h =
     le_encode 4 (unat (version h)) @ le_encode 4 (unat (entryCount h))
       @ le_encode 8 (unat (lastSyncTimestamp h))"

definition header_of_bytes :: "string \<Rightarrow> CacheHeader" where
  "header_of_bytes bs =
     \<lparr>version = word_of_nat (le_decode (take 4 bs)),
      entryCount = word_of_nat (le_decode (take 4 (drop 4 bs))),
      lastSyncTimestamp = word_of_nat (le_decode (take 8 (drop 8 bs)))\<rparr>"

definition bytes_of_entry :: "CacheEntry \<Rightarrow> string" where
  "bytes_of_entry e =
     filename e @ le_encode 8 (unat (submitTimestamp e)) @ firsReference e @ submittedBy e"

definition entry_of_bytes :: "string \<Rightarrow> CacheEntry" where
  "entry_of_bytes bs =
     \<lparr>filename = take 256 bs,
      submitTimestamp = word_of_nat (le_decode (take 8 (drop 256 bs))),
      firsReference = take 32 (drop 264 bs),
      submittedBy = take 64 (drop 296 bs)\<rparr>"

text \<open>The memory of a vector of entries, and the \<open>k\<close> entries a memory region holds.\<close>

definition bytes_of_entries :: "CacheEntry list \<Rightarrow> string" where
  "bytes_of_entries es = concat (map bytes_of_entry es)"

fun entries_of_bytes :: "nat \<Rightarrow> string \<Rightarrow> CacheEntry list" where
  "entries_of_bytes 0 bs = []"
| "entries_of_bytes (Suc k) bs = entry_of_bytes (take 360 bs) # entries_of_bytes k (drop 360 bs)"

text \<open>\<open>std::vector::resize\<close>: new elements are value-initialised, that is zero.\<close>

definition resize :: "CacheEntry list \<Rightarrow> nat \<Rightarrow> CacheEntry list" where
  "resize es k = take k es @ replicate (k - length es) CacheEntry_zero"

subsection \<open>Operations (DuplicateCache.cpp)\<close>

text \<open>The index-building loop of \<open>Load\<close>, run on the cleared set.\<close>

fun build_index :: "string set \<Rightarrow> CacheEntry list \<Rightarrow> string set" where
  "build_index idx [] = idx"
| "build_index idx (e # es) = build_index (insert (c_str (filename e)) idx) es"

text \<open>
  \<open>Load\<close> returns \<open>true\<close> on every path. A file that cannot be opened and a
  header of another version leave the entries and the index as they are. The byte count
  \<open>header.entryCount * sizeof(CacheEntry)\<close> is computed in \<open>size_t\<close>, 64 bits wide,
  where it cannot wrap.
\<close>

definition Load :: "DuplicateCache \<Rightarrow> filesystem \<Rightarrow> wstring \<Rightarrow> bool \<times> DuplicateCache" where
  "Load c fs cachePath =
     (let c1 = c\<lparr>m_cachePath := cachePath\<rparr> in
      case open_read fs cachePath of
        None \<Rightarrow> (True, c1)
      | Some bytes \<Rightarrow>
          let (s1, hbuf) = stream_read (True, bytes) (bytes_of_header CacheHeader_default) 16;
              header = header_of_bytes hbuf
          in if version header \<noteq> 1 then (True, c1)
             else
               let n = unat (entryCount header);
                   es = resize (m_entries c1) n;
                   (s2, ebuf) = stream_read s1 (bytes_of_entries es) (n * 360);
                   es' = entries_of_bytes n ebuf
               in (True, c1\<lparr>m_entries := es', m_filenameIndex := build_index {} es'\<rparr>))"

text \<open>The scan of \<open>Check\<close> for the first entry stored under the name.\<close>

fun find_entry :: "string \<Rightarrow> CacheEntry list \<Rightarrow> CacheEntry option" where
  "find_entry fname [] = None"
| "find_entry fname (e # es) = (if c_str (filename e) = fname then Some e else find_entry fname es)"

definition Check :: "DuplicateCache \<Rightarrow> string \<Rightarrow> DuplicateCheckResult" where
  "Check c fname =
     (if fname \<notin> m_filenameIndex c then
        \<lparr>status = NotSubmitted, dup_firsReference = [], dup_submittedBy = [],
         dup_submitTimestamp = 0\<rparr>
      else case find_entry fname (m_entries c) of
        Some e \<Rightarrow>
          \<lparr>status = AlreadySubmitted, dup_firsReference = c_str (firsReference e),
           dup_submittedBy = c_str (submittedBy e), dup_submitTimestamp = submitTimestamp e\<rparr>
      | None \<Rightarrow>
          \<lparr>status = AlreadySubmitted, dup_firsReference = [], dup_submittedBy = [],
           dup_submitTimestamp = 0\<rparr>)"

text \<open>
  \<open>Save\<close>, with \<open>now\<close> the value of \<open>time(nullptr)\<close>. The entry count is the
  vector's size cast to \<open>uint32_t\<close>.
\<close>

definition Save :: "DuplicateCache \<Rightarrow> filesystem \<Rightarrow> 64 word \<Rightarrow> bool \<times> filesystem" where
  "Save c fs now =
     (if m_cachePath c = [] then (False, fs)
      else if \<not> open_write fs (m_cachePath c) then (False, fs)
      else
        let header = \<lparr>version = 1, entryCount = word_of_nat (length (m_entries c)),
                       lastSyncTimestamp = now\<rparr>
        in (True, fs\<lparr>contents := (contents fs)(m_cachePath c \<mapsto>
                      bytes_of_header header @ bytes_of_entries (m_entries c))\<rparr>))"

text \<open>
  \<open>AddEntry\<close>; \<open>now\<close> is the clock read for the entry, \<open>now'\<close> the one read by
  \<open>Save\<close>, whose result is dropped.
\<close>

definition make_entry :: "string \<Rightarrow> string \<Rightarrow> string \<Rightarrow> 64 word \<Rightarrow> CacheEntry" where
  "make_entry fname firsRef user now =
     \<lparr>filename = strncpy_s (filename CacheEntry_zero) fname (256 - 1),
      submitTimestamp = now,
      firsReference = strncpy_s (firsReference CacheEntry_zero) firsRef (32 - 1),
      submittedBy = strncpy_s (submittedBy CacheEntry_zero) user (64 - 1)\<rparr>"

definition AddEntry ::
  "DuplicateCache \<Rightarrow> filesystem \<Rightarrow> string \<Rightarrow> string \<Rightarrow> string \<Rightarrow> 64 word \<Rightarrow> 64 word
     \<Rightarrow> DuplicateCache \<times> filesystem" where
  "AddEntry c fs fname firsRef user now now' =
     (let entry = make_entry fname firsRef user now;
          c' = c\<lparr>m_entries := m_entries c @ [entry],
                 m_filenameIndex := insert fname (m_filenameIndex c)\<rparr>
      in (c', snd (Save c' fs now')))"

text \<open>The file names under which the records of a cache are stored.\<close>

definition stored_names :: "DuplicateCache \<Rightarrow> string set" where
  "stored_names c = set (map (\<lambda>e. c_str (filename e)) (m_entries c))"


text \<open>An empty file system in which every path can be written, and a cache path.\<close>

definition fs_example :: filesystem where
  "fs_example = \<lparr>contents = Map.empty, can_write = (\<lambda>path. True)\<rparr>"


definition path_example :: wstring where
  "path_example = [0x63, 0x2E, 0x62, 0x69, 0x6E]"

text \<open>A cache of two records, and one of \<open>2^32\<close> zero records.\<close>

definition cache_example :: DuplicateCache where
  "cache_example =
     \<lparr>m_cachePath = path_example,
      m_entries = [make_entry ''a.pdf'' ''FIRS-1'' ''ann'' 7, make_entry ''b.pdf'' ''FIRS-2'' ''bob'' 8],
      m_filenameIndex = {''a.pdf'', ''b.pdf''}\<rparr>"

definition cache_huge :: DuplicateCache where
  "cache_huge =
     \<lparr>m_cachePath = path_example, m_entries = replicate (2 ^ 32) CacheEntry_zero,
      m_filenameIndex = {[]}\<rparr>"



definition long_name :: string where
  "long_name = replicate 256 CHR ''a''"

section \<open>InvoiceRouter\<close>

subsection \<open>Regular expressions\<close>

text \<open>
  The expressions of the pattern table, in the ECMAScript grammar of \<open>std::regex\<close>
  with \<open>icase\<close>: characters compared without case, \<open>\d\<close>, \<open>\s\<close>, the dot (any
  character but a line feed or a carriage return), alternatives, sequences and
  repetition. \<open>regex_search\<close> holds when the expression matches somewhere in the
  string; it is decided with derivatives.
\<close>

datatype regex =
    Null
  | Eps
  | Lit char
  | Digit
  | Space
  | Dot
  | Alt regex regex
  | Seq regex regex
  | Star regex

definition is_digit :: "char \<Rightarrow> bool" where
  "is_digit c \<longleftrightarrow> 48 \<le> (of_char c :: nat) \<and> (of_char c :: nat) \<le> 57"

definition is_space :: "char \<Rightarrow> bool" where
  "is_space c \<longleftrightarrow> (of_char c :: nat) = 32 \<or> 9 \<le> (of_char c :: nat) \<and> (of_char c :: nat) \<le> 13"

fun nullable :: "regex \<Rightarrow> bool" where
  "nullable Null = False"
| "nullable Eps = True"
| "nullable (Lit d) = False"
| "nullable Digit = False"
| "nullable Space = False"
| "nullable Dot = False"
| "nullable (Alt r s) = (nullable r \<or> nullable s)"
| "nullable (Seq r s) = (nullable r \<and> nullable s)"
| "nullable (Star r) = True"

text \<open>Alternative and sequence, dropping what cannot match.\<close>

definition alt :: "regex \<Rightarrow> regex \<Rightarrow> regex" where
  "alt r s = (if r = Null then s else if s = Null then r else Alt r s)"

definition seq :: "regex \<Rightarrow> regex \<Rightarrow> regex" where
  "seq r s = (if r = Null \<or> s = Null then Null else if r = Eps then s else Seq r s)"

fun deriv :: "char \<Rightarrow> regex \<Rightarrow> regex" where
  "deriv c Null = Null"
| "deriv c Eps = Null"
| "deriv c (Lit d) = (if tolower c = tolower d then Eps else Null)"
| "deriv c Digit = (if is_digit c then Eps else Null)"
| "deriv c Space = (if is_space c then Eps else Null)"
| "deriv c Dot = (if c = CHR 0x0A \<or> c = CHR 0x0D then Null else Eps)"
| "deriv c (Alt r s) = alt (deriv c r) (deriv c s)"
| "deriv c (Seq r s) =
     (if nullable r then alt (seq (deriv c r) s) (deriv c s) else seq (deriv c r) s)"
| "deriv c (Star r) = seq (deriv c r) (Star r)"

text \<open>Some prefix of the string is matched; the expression matches somewhere.\<close>

fun match_prefix :: "regex \<Rightarrow> string \<Rightarrow> bool" where
  "match_prefix r [] = nullable r"
| "match_prefix r (c # cs) = (if nullable r then True else match_prefix (deriv c r) cs)"

fun regex_search :: "string \<Rightarrow> regex \<Rightarrow> bool" where
  "regex_search [] r = match_prefix r []"
| "regex_search (c # cs) r = (if match_prefix r (c # cs) then True else regex_search cs r)"

text \<open>
  What an expression matches, as the grammar defines it; \<open>regex_search\<close> decides
  whether a string has a part that is matched (lemma \<open>regex_search_matches\<close>).
\<close>

inductive matches :: "regex \<Rightarrow> string \<Rightarrow> bool" where
  Eps: "matches Eps []"
| Lit: "tolower c = tolower d \<Longrightarrow> matches (Lit d) [c]"
| Digit: "is_digit c \<Longrightarrow> matches Digit [c]"
| Space: "is_space c \<Longrightarrow> matches Space [c]"
| Dot: "c \<noteq> CHR 0x0A \<Longrightarrow> c \<noteq> CHR 0x0D \<Longrightarrow> matches Dot [c]"
| AltL: "matches r u \<Longrightarrow> matches (Alt r s) u"
| AltR: "matches s u \<Longrightarrow> matches (Alt r s) u"
| Seq: "matches r u \<Longrightarrow> matches s v \<Longrightarrow> matches (Seq r s) (u @ v)"
| Star0: "matches (Star r) []"
| StarS: "matches r u \<Longrightarrow> matches (Star r) v \<Longrightarrow> matches (Star r) (u @ v)"

text \<open>Notation of the grammar: a literal word, \<open>r?\<close>, \<open>(r|s|...)\<close>, \<open>r{lo,hi}\<close>.\<close>

fun word :: "string \<Rightarrow> regex" where
  "word [] = Eps"
| "word (c # cs) = Seq (Lit c) (word cs)"

definition opt :: "regex \<Rightarrow> regex" where
  "opt r = Alt r Eps"

fun one_of :: "regex list \<Rightarrow> regex" where
  "one_of [] = Null"
| "one_of (r # rs) = Alt r (one_of rs)"

fun seqs :: "regex list \<Rightarrow> regex" where
  "seqs [] = Eps"
| "seqs (r # rs) = Seq r (seqs rs)"

fun times :: "nat \<Rightarrow> regex \<Rightarrow> regex" where
  "times 0 r = Eps"
| "times (Suc n) r = Seq r (times n r)"

definition between :: "nat \<Rightarrow> nat \<Rightarrow> regex \<Rightarrow> regex" where
  "between lo hi r = Seq (times lo r) (times (hi - lo) (opt r))"

subsection \<open>Data (InvoiceRouter.h)\<close>

datatype RouteDecision = Invoice | NotInvoice | Unknown

record RouteResult =
  decision :: RouteDecision
  matchedPattern :: string
  clientHint :: string
  confidenceScore :: double

record RoutingPattern =
  name :: string
  filenameRegex :: regex
  description :: string

record InvoiceRouter =
  m_patterns :: "RoutingPattern list"

subsection \<open>The pattern table (InitDefaultPatterns)\<close>

text \<open>The class \<open>[_\-\s]\<close> of three of the expressions.\<close>

definition separator :: regex where
  "separator = one_of [Lit CHR ''_'', Lit CHR ''-'', Space]"

definition billing_words :: regex where
  "billing_words = one_of [word ''invoice'', word ''bill'', word ''statement'']"

definition InitDefaultPatterns :: "RoutingPattern list" where
  "InitDefaultPatterns =
     [\<lparr>name = ''GTBank'',
       filenameRegex = seqs [word ''GT'', opt separator, one_of [word ''Bank'', word ''B''],
                             Star Dot, word ''inv''],
       description = ''GTBank invoice filenames''\<rparr>,
      \<lparr>name = ''MTN'',
       filenameRegex = seqs [word ''MTN'', Star Dot, billing_words],
       description = ''MTN billing documents''\<rparr>,
      \<lparr>name = ''Airtel'',
       filenameRegex = seqs [word ''Airtel'', Star Dot, billing_words],
       description = ''Airtel billing documents''\<rparr>,
      \<lparr>name = ''ExecuJet'',
       filenameRegex = seqs [word ''WN'', between 4 6 Digit, word ''.pdf''],
       description = ''ExecuJet work order / invoice''\<rparr>,
      \<lparr>name = ''Generic'',
       filenameRegex =
         seqs [one_of [word ''INV'', word ''INVOICE'', word ''BILL'', word ''RECEIPT'',
                       seqs [word ''TAX'', opt separator, word ''INV'']],
               opt separator, Digit],
       description = ''Generic invoice filenames''\<rparr>,
      \<lparr>name = ''FIRS'',
       filenameRegex = seqs [one_of [word ''FIRS'', word ''TIN'', word ''VAT''], separator],
       description = ''FIRS / tax-related documents''\<rparr>]"

text \<open>The constructor.\<close>

definition InvoiceRouter_new :: InvoiceRouter where
  "InvoiceRouter_new = \<lparr>m_patterns = InitDefaultPatterns\<rparr>"

subsection \<open>Tier 1: the file name (MatchFilename)\<close>

fun MatchFilename_loop :: "RoutingPattern list \<Rightarrow> string \<Rightarrow> RouteResult" where
  "MatchFilename_loop [] fname =
     \<lparr>decision = Unknown, matchedPattern = [], clientHint = [], confidenceScore = 0\<rparr>"
| "MatchFilename_loop (pattern # rest) fname =
     (if regex_search fname (filenameRegex pattern) then
        \<lparr>decision = Invoice, matchedPattern = description pattern,
         clientHint = name pattern, confidenceScore = hundredths 95\<rparr>
      else MatchFilename_loop rest fname)"

definition MatchFilename :: "InvoiceRouter \<Rightarrow> string \<Rightarrow> RouteResult" where
  "MatchFilename router fname = MatchFilename_loop (m_patterns router) fname"

subsection \<open>Tier 2: the content (ExtractFirstPageText, AnalyzeContent)\<close>

text \<open>
  The loop of \<open>ExtractFirstPageText\<close> over the bytes read, with the text and the
  current run of printable characters. \<open>char\<close> is signed, so \<open>c >= 32 && c < 127\<close>
  holds for the bytes 32 to 126 only.
\<close>

fun extract_loop :: "string \<Rightarrow> nat \<Rightarrow> string \<Rightarrow> string \<Rightarrow> string \<times> string" where
  "extract_loop [] maxChars text run = (text, run)"
| "extract_loop (c # cs) maxChars text run =
     (if \<not> length text < maxChars then (text, run)
      else if 32 \<le> (of_char c :: nat) \<and> (of_char c :: nat) < 127 then
        extract_loop cs maxChars text (run @ [c])
      else if 4 \<le> length run then extract_loop cs maxChars (text @ run @ '' '') []
      else extract_loop cs maxChars text [])"

definition ExtractFirstPageText :: "filesystem \<Rightarrow> wstring \<Rightarrow> nat \<Rightarrow> string" where
  "ExtractFirstPageText fs pdfPath maxChars =
     (case open_read fs pdfPath of
        None \<Rightarrow> []
      | Some bytes \<Rightarrow>
          let (text, run) = extract_loop (take 8192 bytes) maxChars [] [];
              text' = (if 4 \<le> length run then text @ run else text)
          in if maxChars < length text' then take maxChars text' else text')"

text \<open>The marker table of \<open>AnalyzeContent\<close>.\<close>

definition markers :: "(string \<times> double) list" where
  "markers =
     [(''TAX INVOICE'', hundredths 40),
      (''INVOICE'', hundredths 25),
      (''BILL TO'', hundredths 20),
      (''SHIP TO'', hundredths 15),
      (''TIN:'', hundredths 30),
      (''VAT:'', hundredths 20),
      (''TOTAL AMOUNT'', hundredths 15),
      (''SUBTOTAL'', hundredths 15),
      (''DUE DATE'', hundredths 15),
      (''INVOICE NO'', hundredths 30),
      (''INVOICE NUMBER'', hundredths 30),
      (''INV NO'', hundredths 25),
      (''PURCHASE ORDER'', hundredths 20),
      (''ACCOUNT NO'', hundredths 10),
      (''FIRS'', hundredths 25)]"

text \<open>The scoring loop, with the score and the best match so far.\<close>

fun marker_loop :: "(string \<times> double) list \<Rightarrow> string \<Rightarrow> double \<Rightarrow> string \<Rightarrow> double \<times> string" where
  "marker_loop [] upper score bestMatch = (score, bestMatch)"
| "marker_loop (m # ms) upper score bestMatch =
     (if str_find upper (fst m) \<noteq> None then
        marker_loop ms upper (dbl_add score (snd m)) (if bestMatch = [] then fst m else bestMatch)
      else marker_loop ms upper score bestMatch)"

text \<open>
  The calls a routing makes to its collaborator, in order: the trace records each call
  of \<open>ExtractFirstPageText\<close> with its arguments.
\<close>

datatype router_call = Call_ExtractFirstPageText wstring nat

definition AnalyzeContent :: "filesystem \<Rightarrow> wstring \<Rightarrow> RouteResult \<times> router_call list" where
  "AnalyzeContent fs pdfPath =
     (let text = ExtractFirstPageText fs pdfPath 500;
          calls = [Call_ExtractFirstPageText pdfPath 500]
      in if text = [] then
           (\<lparr>decision = Unknown, matchedPattern = [], clientHint = [], confidenceScore = 0\<rparr>,
            calls)
         else
           let upper = map toupper text;
               (score, bestMatch) = marker_loop markers upper 0 [];
               score = (if 1 < score then 1 else score)
           in if hundredths 30 \<le> score then
                (\<lparr>decision = Invoice, matchedPattern = ''Content analysis: '' @ bestMatch,
                  clientHint = [], confidenceScore = score\<rparr>, calls)
              else
                (\<lparr>decision = NotInvoice, matchedPattern = [], clientHint = [],
                  confidenceScore = dbl_sub 1 score\<rparr>, calls))"

subsection \<open>Route\<close>

definition Route :: "InvoiceRouter \<Rightarrow> filesystem \<Rightarrow> wstring \<Rightarrow> RouteResult \<times> router_call list" where
  "Route router fs pdfPath =
     (let fname = base_filename pdfPath;
          result = MatchFilename router fname
      in if decision result = Invoice then (result, [])
         else AnalyzeContent fs pdfPath)"

text \<open>
  The markers of the table found in a text, in table order; the name of the first of a
  list of markers (empty when there is none); the clamping of a score to 1.
\<close>

definition found_markers :: "string \<Rightarrow> (string \<times> double) list" where
  "found_markers upper = filter (\<lambda>m. str_find upper (fst m) \<noteq> None) markers"

definition first_name :: "(string \<times> double) list \<Rightarrow> string" where
  "first_name found = (case found of [] \<Rightarrow> [] | m # ms \<Rightarrow> fst m)"

definition clamp_score :: "double \<Rightarrow> double" where
  "clamp_score s = (if 1 < s then 1 else s)"

text \<open>A file system with one document, and its path.\<close>

definition pdf_path :: wstring where
  "pdf_path = widen ''C:/docs/scan0001.pdf''"

definition pdf_bytes :: string where
  "pdf_bytes = ''%PDF-1.4'' @ [CHR 0x0A] @ ''Invoice for services'' @ [CHR 0x0A, CHR 0x01]
     @ ''Bill to: Acme Ltd''"

definition memo_path :: wstring where
  "memo_path = widen ''C:/docs/memo.pdf''"

definition memo_bytes :: string where
  "memo_bytes = ''%PDF-1.4'' @ [CHR 0x0A] @ ''Minutes of the meeting''"

definition fs_pdf :: filesystem where
  "fs_pdf = \<lparr>contents = [pdf_path \<mapsto> pdf_bytes, memo_path \<mapsto> memo_bytes],
             can_write = (\<lambda>path. True)\<rparr>"

text \<open>A path whose file name matches the fourth pattern.\<close>

definition wn_path :: wstring where
  "wn_path = widen (''C:'' @ [CHR 0x5C] @ ''inbox'' @ [CHR 0x5C] @ ''WN42752.pdf'')"

section \<open>RelayClient\<close>

subsection \<open>Data (RelayClient.h)\<close>

text \<open>
  \<open>RelayResponse\<close> and \<open>SubmitResult\<close>; the fields \<open>error\<close> and \<open>success\<close> of the
  response carry the prefix \<open>resp_\<close>, and the reference of the result the prefix
  \<open>sub_\<close>.
\<close>

record RelayResponse =
  statusCode :: int
  body :: string
  resp_error :: string
  resp_success :: bool

record SubmitResult =
  success :: bool
  sub_firsReference :: string
  fileUuid :: string
  error :: string
  httpStatus :: int

definition RelayResponse_default :: RelayResponse where
  "RelayResponse_default = \<lparr>statusCode = 0, body = [], resp_error = [], resp_success = False\<rparr>"

definition SubmitResult_default :: SubmitResult where
  "SubmitResult_default =
     \<lparr>success = False, sub_firsReference = [], fileUuid = [], error = [], httpStatus = 0\<rparr>"

text \<open>The client: the endpoint, and whether \<open>WinHttpOpen\<close> gave a session handle.\<close>

record RelayClient =
  m_host :: wstring
  m_port :: int
  m_hSession :: bool

subsection \<open>The transport (WinHTTP)\<close>

text \<open>
  A request as the exchange sees it, and what the WinHTTP calls of \<open>SendRequest\<close>
  come to: one of the four failures, or a response with the status code (a
  \<open>DWORD\<close>) and the body read. The network is a function from requests to
  outcomes. The content type and the token are sent as headers when not empty.
\<close>

record http_request =
  req_host :: wstring
  req_port :: int
  req_method :: wstring
  req_path :: wstring
  req_body :: string
  req_contentType :: string
  req_authToken :: string

datatype winhttp_outcome =
    ConnectFailed
  | OpenRequestFailed
  | SendFailed
  | NoResponse
  | Responded "32 word" string

type_synonym network = "http_request \<Rightarrow> winhttp_outcome"

definition SendRequest ::
  "RelayClient \<Rightarrow> network \<Rightarrow> wstring \<Rightarrow> wstring \<Rightarrow> string \<Rightarrow> string \<Rightarrow> string \<Rightarrow> RelayResponse" where
  "SendRequest client net method path content contentType authToken =
     (if \<not> m_hSession client then
        RelayResponse_default\<lparr>resp_error := ''WinHTTP session not initialized''\<rparr>
      else
        case net \<lparr>req_host = m_host client, req_port = m_port client, req_method = method,
                  req_path = path, req_body = content, req_contentType = contentType,
                  req_authToken = authToken\<rparr> of
          ConnectFailed \<Rightarrow> RelayResponse_default\<lparr>resp_error := ''Failed to connect to Relay''\<rparr>
        | OpenRequestFailed \<Rightarrow>
            RelayResponse_default\<lparr>resp_error := ''Failed to create HTTP request''\<rparr>
        | SendFailed \<Rightarrow>
            RelayResponse_default\<lparr>resp_error := ''Failed to send request (is Relay running?)''\<rparr>
        | NoResponse \<Rightarrow> RelayResponse_default\<lparr>resp_error := ''No response from Relay''\<rparr>
        | Responded code responseBody \<Rightarrow>
            \<lparr>statusCode = sint code, body = responseBody, resp_error = [],
             resp_success = True\<rparr>)"

subsection \<open>The multipart body (BuildMultipartBody)\<close>

abbreviation DQUOTE :: char where
  "DQUOTE \<equiv> CHR 0x22"

definition CRLF :: string where
  "CRLF = [CHR 0x0D, CHR 0x0A]"

text \<open>
  The boundary is drawn first: sixteen hexadecimal digits, each from a random value
  between 0 and 15. The result is the body and the boundary; the body is empty when
  the file cannot be opened.
\<close>

definition hex_digit :: "4 word \<Rightarrow> char" where
  "hex_digit d = ''0123456789abcdef'' ! unat d"

definition BuildMultipartBody ::
  "filesystem \<Rightarrow> 4 word list \<Rightarrow> wstring \<Rightarrow> string \<Rightarrow> string \<times> string" where
  "BuildMultipartBody fs dice pdfPath userEmail =
     (let boundary = ''----HeliumBoundary'' @ map hex_digit (take 16 dice) in
      case open_read fs pdfPath of
        None \<Rightarrow> ([], boundary)
      | Some pdfData \<Rightarrow>
          (''--'' @ boundary @ CRLF
           @ ''Content-Disposition: form-data; name='' @ [DQUOTE] @ ''source'' @ [DQUOTE]
           @ CRLF @ CRLF
           @ ''transforma_reader'' @ CRLF
           @ ''--'' @ boundary @ CRLF
           @ ''Content-Disposition: form-data; name='' @ [DQUOTE] @ ''user'' @ [DQUOTE]
           @ CRLF @ CRLF
           @ userEmail @ CRLF
           @ ''--'' @ boundary @ CRLF
           @ ''Content-Disposition: form-data; name='' @ [DQUOTE] @ ''file'' @ [DQUOTE]
           @ ''; filename='' @ [DQUOTE] @ base_filename pdfPath @ [DQUOTE] @ CRLF
           @ ''Content-Type: application/pdf'' @ CRLF @ CRLF
           @ pdfData @ CRLF
           @ ''--'' @ boundary @ ''--'' @ CRLF,
           boundary))"

subsection \<open>SubmitInvoice\<close>

text \<open>The lambda \<open>extractField\<close>, over the response body.\<close>

definition extractField :: "string \<Rightarrow> string \<Rightarrow> string" where
  "extractField responseBody key =
     (let search = [DQUOTE] @ key @ [DQUOTE] in
      case str_find responseBody search of
        None \<Rightarrow> []
      | Some pos \<Rightarrow>
          (case str_find_from responseBody [DQUOTE] (pos + length search + 1) of
             None \<Rightarrow> []
           | Some pos' \<Rightarrow>
               (case str_find_from responseBody [DQUOTE] (pos' + 1) of
                  None \<Rightarrow> []
                | Some endpos \<Rightarrow> substr_n responseBody (pos' + 1) (endpos - pos' - 1))))"

definition SubmitInvoice ::
  "RelayClient \<Rightarrow> filesystem \<Rightarrow> network \<Rightarrow> 4 word list \<Rightarrow> wstring \<Rightarrow> string \<Rightarrow> string
     \<Rightarrow> SubmitResult" where
  "SubmitInvoice client fs net dice pdfPath userEmail sessionToken =
     (let (content, boundary) = BuildMultipartBody fs dice pdfPath userEmail in
      if content = [] then SubmitResult_default\<lparr>error := ''Failed to read PDF file''\<rparr>
      else
        let contentType = ''multipart/form-data; boundary='' @ boundary;
            resp = SendRequest client net (widen ''POST'') (widen ''/api/ingest'') content
                     contentType sessionToken;
            result = SubmitResult_default\<lparr>httpStatus := statusCode resp\<rparr>
        in if \<not> resp_success resp then result\<lparr>error := resp_error resp\<rparr>
           else if statusCode resp = 200 \<or> statusCode resp = 201 then
             result\<lparr>success := True,
                    fileUuid := extractField (body resp) ''file_uuid'',
                    sub_firsReference := extractField (body resp) ''firs_reference''\<rparr>
           else if statusCode resp = 409 then
             result\<lparr>error := ''Invoice already submitted (duplicate)''\<rparr>
           else if statusCode resp = 429 then
             result\<lparr>error := ''Daily submission limit exceeded''\<rparr>
           else result\<lparr>error := ''Relay returned HTTP '' @ to_string (statusCode resp)\<rparr>)"

definition IsRelayAvailable :: "RelayClient \<Rightarrow> network \<Rightarrow> bool" where
  "IsRelayAvailable client net =
     (let resp = SendRequest client net (widen ''GET'') (widen ''/health'') [] [] []
      in resp_success resp \<and> statusCode resp = 200)"

text \<open>The constructor, when \<open>WinHttpOpen\<close> succeeds.\<close>

definition RelayClient_new :: RelayClient where
  "RelayClient_new = \<lparr>m_host = widen ''localhost'', m_port = 8082, m_hSession = True\<rparr>"

text \<open>
  A relay that answers every request with the given status and a body naming a file
  and a reference; a fixed draw of the boundary's digits.
\<close>

definition relay_body :: string where
  "relay_body = ''{'' @ [DQUOTE] @ ''file_uuid'' @ [DQUOTE] @ '': '' @ [DQUOTE] @ ''u-17''
     @ [DQUOTE] @ '', '' @ [DQUOTE] @ ''firs_reference'' @ [DQUOTE] @ '': '' @ [DQUOTE]
     @ ''FIRS-1'' @ [DQUOTE] @ ''}''"

definition relay_net :: "32 word \<Rightarrow> network" where
  "relay_net code = (\<lambda>request. Responded code relay_body)"

definition dice_example :: "4 word list" where
  "dice_example = [1, 2, 3, 4, 5, 6, 7, 8, 9, 10, 11, 12, 13, 14, 15, 0]"

text \<open>
  A response body holds a text field: the first occurrence of the quoted key is followed
  by one character (the colon), then characters other than a double quote, then the
  value between double quotes, itself without a double quote.
\<close>

definition holds_field :: "string \<Rightarrow> string \<Rightarrow> string \<Rightarrow> bool" where
  "holds_field responseBody key val \<longleftrightarrow>
     (\<exists>pre c gap rest.
        responseBody = pre @ [DQUOTE] @ key @ [DQUOTE] @ c # gap @ [DQUOTE] @ val @ [DQUOTE] @ rest
        \<and> str_find responseBody ([DQUOTE] @ key @ [DQUOTE]) = Some (length pre)
        \<and> DQUOTE \<notin> set gap \<and> DQUOTE \<notin> set val)"

text \<open>
  Two bodies a relay can send with status 200: in the first the text \<open>file_uuid\<close> is
  the value of an earlier field, in the second the field \<open>file_uuid\<close> is \<open>null\<close>.
\<close>

definition relay_body_echo :: string where
  "relay_body_echo = ''{'' @ [DQUOTE] @ ''requested'' @ [DQUOTE] @ '': '' @ [DQUOTE]
     @ ''file_uuid'' @ [DQUOTE] @ '', '' @ [DQUOTE] @ ''file_uuid'' @ [DQUOTE] @ '': ''
     @ [DQUOTE] @ ''u-17'' @ [DQUOTE] @ '', '' @ [DQUOTE] @ ''firs_reference'' @ [DQUOTE]
     @ '': '' @ [DQUOTE] @ ''FIRS-1'' @ [DQUOTE] @ ''}''"

definition relay_body_null :: string where
  "relay_body_null = ''{'' @ [DQUOTE] @ ''file_uuid'' @ [DQUOTE] @ '': null, '' @ [DQUOTE]
     @ ''firs_reference'' @ [DQUOTE] @ '': '' @ [DQUOTE] @ ''FIRS-1'' @ [DQUOTE] @ ''}''"

definition relay_net_with :: "string \<Rightarrow> network" where
  "relay_net_with responseBody = (\<lambda>request. Responded 200 responseBody)"

section \<open>HeliumController\<close>

subsection \<open>Data (HeliumController.h, SessionToken.h)\<close>

text \<open>
  The states of the button carry the prefix \<open>Btn\<close>, which keeps
  \<open>SubmitButtonState::AlreadySubmitted\<close> apart from
  \<open>DuplicateStatus::AlreadySubmitted\<close>.
\<close>

datatype SubmitButtonState =
    BtnReady
  | BtnAlreadySubmitted
  | BtnChecking
  | BtnSubmitting
  | BtnSuccess
  | BtnError
  | BtnNoSession
  | BtnFloatNotRunning

record ButtonStateInfo =
  state :: SubmitButtonState
  label :: string
  tooltip :: string

text \<open>\<open>SessionInfo\<close>, what \<open>SessionToken::Load\<close> returns.\<close>

record SessionInfo =
  username :: string
  token :: string
  expiresAt :: string
  userId :: string
  valid :: bool
  session_error :: string

record HeliumController =
  m_relay :: RelayClient
  m_cache :: DuplicateCache
  m_router :: InvoiceRouter
  m_buttonState :: ButtonStateInfo
  m_currentPdf :: wstring

text \<open>The constructor.\<close>

definition HeliumController_new :: HeliumController where
  "HeliumController_new =
     \<lparr>m_relay = RelayClient_new, m_cache = DuplicateCache_new, m_router = InvoiceRouter_new,
      m_buttonState = \<lparr>state = BtnChecking, label = ''Checking...'',
                       tooltip = ''Verifying session and connection''\<rparr>,
      m_currentPdf = []\<rparr>"

subsection \<open>The submission sequence (OnSubmitClicked)\<close>

text \<open>
  The thread that \<open>OnSubmitClicked\<close> starts is run on its own, to its end. Its run
  carries the controller, the file system and the trace of the calls it makes to its
  collaborators, in order: loading the session, checking the cache, setting the button
  state (which notifies the user interface), submitting through the relay, adding to the
  cache, and sleeping.
\<close>

datatype call =
    Call_SessionToken_Load
  | Call_Check string
  | Call_SetState ButtonStateInfo
  | Call_SubmitInvoice wstring string string
  | Call_AddEntry string string string
  | Call_Sleep nat

record run =
  controller :: HeliumController
  files :: filesystem
  calls :: "call list"

definition traced :: "call \<Rightarrow> run \<Rightarrow> run" where
  "traced c r = r\<lparr>calls := calls r @ [c]\<rparr>"

definition SetState :: "SubmitButtonState \<Rightarrow> string \<Rightarrow> string \<Rightarrow> run \<Rightarrow> run" where
  "SetState st lbl tip r =
     (let info = \<lparr>state = st, label = lbl, tooltip = tip\<rparr>
      in traced (Call_SetState info) (r\<lparr>controller := (controller r)\<lparr>m_buttonState := info\<rparr>\<rparr>))"

definition ExtractFilename :: "wstring \<Rightarrow> string" where
  "ExtractFilename path =
     (let utf8 = WideToUtf8 path in
      case find_last_of utf8 [CHR 0x5C, CHR ''/''] of
        Some lastSlash \<Rightarrow> substr utf8 (lastSlash + 1)
      | None \<Rightarrow> utf8)"

text \<open>
  The environment of one run: the network, the session that \<open>SessionToken::Load\<close>
  returns, the draw of the boundary, and the clock read by \<open>AddEntry\<close> and by its
  \<open>Save\<close>.
\<close>

record environment =
  env_net :: network
  env_session :: SessionInfo
  env_dice :: "4 word list"
  env_now :: "64 word"
  env_now' :: "64 word"

definition OnSubmitClicked :: "HeliumController \<Rightarrow> filesystem \<Rightarrow> environment \<Rightarrow> wstring \<Rightarrow> run" where
  "OnSubmitClicked ctl fs env currentPdfPath =
     (let r0 = traced Call_SessionToken_Load \<lparr>controller = ctl, files = fs, calls = []\<rparr>;
          session = env_session env
      in if \<not> valid session then
           SetState BtnNoSession ''Sign In Required'' (session_error session) r0
         else
           let fname = ExtractFilename currentPdfPath;
               dupCheck = Check (m_cache ctl) fname;
               r1 = traced (Call_Check fname) r0
           in if status dupCheck = AlreadySubmitted then
                SetState BtnAlreadySubmitted ''Already Submitted''
                  (''Submitted by '' @ dup_submittedBy dupCheck @ '' (Ref: ''
                     @ dup_firsReference dupCheck @ '')'') r1
              else
                let r2 = SetState BtnSubmitting ''Submitting...''
                           ''Sending to Helium Relay for FIRS processing'' r1;
                    result = SubmitInvoice (m_relay ctl) fs (env_net env) (env_dice env)
                               currentPdfPath (username session) (token session);
                    r3 = traced (Call_SubmitInvoice currentPdfPath (username session)
                                   (token session)) r2
                in if success result then
                     let (cache', fs') = AddEntry (m_cache ctl) fs fname
                                           (sub_firsReference result) (username session)
                                           (env_now env) (env_now' env);
                         r4 = traced (Call_AddEntry fname (sub_firsReference result)
                                        (username session))
                                (r3\<lparr>controller := (controller r3)\<lparr>m_cache := cache'\<rparr>,
                                    files := fs'\<rparr>);
                         r5 = SetState BtnSuccess ''Submitted!''
                                (''FIRS Reference: '' @ sub_firsReference result) r4;
                         r6 = traced (Call_Sleep 3000) r5
                     in SetState BtnAlreadySubmitted ''Already Submitted''
                          (''FIRS Reference: '' @ sub_firsReference result) r6
                   else
                     let r4 = SetState BtnError ''Submit Failed'' (error result) r3;
                         r5 = traced (Call_Sleep 5000) r4
                     in SetState BtnReady ''Submit to FIRS'' ''Click to retry submission'' r5)"

text \<open>The calls of the transport in a trace.\<close>

fun is_submit :: "call \<Rightarrow> bool" where
  "is_submit (Call_SubmitInvoice path user tok) = True"
| "is_submit c = False"

definition transport_calls :: "run \<Rightarrow> call list" where
  "transport_calls r = filter is_submit (calls r)"

text \<open>Two sessions, and an environment with a relay that accepts.\<close>

definition session_none :: SessionInfo where
  "session_none =
     \<lparr>username = [], token = [], expiresAt = [], userId = [], valid = False,
      session_error = ''No session found (not logged in)''\<rparr>"

definition session_ann :: SessionInfo where
  "session_ann =
     \<lparr>username = ''ann@example.com'', token = ''token'', expiresAt = ''2099-01-01T00:00:00'',
      userId = ''7'', valid = True, session_error = []\<rparr>"

definition env_example :: "SessionInfo \<Rightarrow> environment" where
  "env_example session =
     \<lparr>env_net = relay_net 201, env_session = session, env_dice = dice_example,
      env_now = 5, env_now' = 6\<rparr>"

text \<open>A controller whose cache already holds the document of the examples.\<close>

definition ctl_submitted :: HeliumController where
  "ctl_submitted =
     HeliumController_new\<lparr>m_cache := fst (AddEntry DuplicateCache_new fs_pdf ''scan0001.pdf''
       ''FIRS-1'' ''ann@example.com'' 5 6)\<rparr>"

section \<open>Properties of the arithmetic model\<close>

text \<open>
  The rounding is to a nearest point of the grid of the operand's binade: the error is
  at most half a step, and in the normal range the mantissa has 53 bits.
\<close>

lemma ilog2_bounds: "0 < n \<Longrightarrow> 2 ^ ilog2 n \<le> n \<and> n < 2 ^ Suc (ilog2 n)"
proof (induction n rule: ilog2.induct)
  case (1 n)
  show ?case
  proof (cases "n < 2")
    case True
    then show ?thesis using 1(2) by (simp add: ilog2.simps)
  next
    case False
    then have "0 < n div 2" by simp
    then have "2 ^ ilog2 (n div 2) \<le> n div 2 \<and> n div 2 < 2 ^ Suc (ilog2 (n div 2))"
      using 1(1) False by simp
    then show ?thesis
      using False by (subst (1 2) ilog2.simps) (simp, arith)
  qed
qed

lemma round_half_even_near: "\<bar>of_int (round_half_even x) - x\<bar> \<le> 1 / 2"
proof -
  have "of_int \<lfloor>x\<rfloor> \<le> x" "x < of_int \<lfloor>x\<rfloor> + 1" by linarith+
  then show ?thesis
    by (auto simp add: round_half_even_def Let_def)
qed

lemma pow2_le_of_nat: "2 ^ k \<le> n \<Longrightarrow> (2::rat) ^ k \<le> of_nat n"
proof -
  assume "2 ^ k \<le> n"
  then have "(of_nat (2 ^ k) :: rat) \<le> of_nat n" by (simp only: of_nat_le_iff)
  then show ?thesis by simp
qed

lemma of_nat_le_pow2: "n \<le> 2 ^ k \<Longrightarrow> of_nat n \<le> (2::rat) ^ k"
proof -
  assume "n \<le> 2 ^ k"
  then have "(of_nat n :: rat) \<le> of_nat (2 ^ k)" by (simp only: of_nat_le_iff)
  then show ?thesis by simp
qed

lemma binade_ge1:
  assumes "1 \<le> x"
  shows "2 powi binade x \<le> x \<and> x < 2 powi (binade x + 1)"
proof -
  define n where "n = nat \<lfloor>x\<rfloor>"
  have f: "1 \<le> \<lfloor>x\<rfloor>" using assms by linarith
  have n0: "0 < n" using f by (simp add: n_def)
  have "of_int \<lfloor>x\<rfloor> \<le> x" "x < of_int \<lfloor>x\<rfloor> + 1" by linarith+
  moreover have "(of_nat n :: rat) = of_int \<lfloor>x\<rfloor>" using f by (simp add: n_def)
  ultimately have n: "of_nat n \<le> x" "x < of_nat n + 1" by simp_all
  have b: "2 ^ ilog2 n \<le> n" "Suc n \<le> 2 ^ Suc (ilog2 n)"
    using ilog2_bounds [OF n0] by simp_all
  have l: "(2::rat) ^ ilog2 n \<le> of_nat n" using b(1) by (rule pow2_le_of_nat)
  have "of_nat (Suc n) \<le> (2::rat) ^ Suc (ilog2 n)" using b(2) by (rule of_nat_le_pow2)
  then have u: "of_nat n + 1 \<le> (2::rat) ^ Suc (ilog2 n)" by simp
  have e: "binade x = int (ilog2 n)" using assms by (simp add: binade_def n_def)
  have p: "(2::rat) powi int (ilog2 n) = 2 ^ ilog2 n"
    "(2::rat) powi (int (ilog2 n) + 1) = 2 ^ Suc (ilog2 n)"
    by (simp_all add: power_int_def nat_add_distrib)
  show ?thesis
    unfolding e p using l u n by linarith
qed

lemma binade_lt1:
  assumes "0 < x" and "x < 1"
  shows "2 powi binade x \<le> x \<and> x < 2 powi (binade x + 1)"
proof -
  define y where "y = 1 / x"
  define m where "m = nat \<lceil>y\<rceil>"
  define k where "k = ilog2 (m - 1)"
  have y: "1 < y" using assms by (simp add: y_def)
  have c: "2 \<le> \<lceil>y\<rceil>" using y by linarith
  have m2: "2 \<le> m" unfolding m_def using c by linarith
  have "y \<le> of_int \<lceil>y\<rceil>" "of_int \<lceil>y\<rceil> - 1 < y" by linarith+
  moreover have "(of_nat m :: rat) = of_int \<lceil>y\<rceil>"
  proof -
    have "int m = \<lceil>y\<rceil>" unfolding m_def using c by linarith
    then show ?thesis by (metis of_int_of_nat_eq)
  qed
  ultimately have m: "y \<le> of_nat m" "of_nat m - 1 < y" by simp_all
  have b0: "2 ^ k \<le> m - 1 \<and> m - 1 < 2 ^ Suc k"
    unfolding k_def using m2 by (intro ilog2_bounds) simp
  have b: "2 ^ k \<le> m - 1" "m \<le> 2 ^ Suc k"
    using b0 m2 by linarith+
  have up: "of_nat m \<le> (2::rat) ^ Suc k" using b(2) by (rule of_nat_le_pow2)
  have "(2::rat) ^ k \<le> of_nat (m - 1)" using b(1) by (rule pow2_le_of_nat)
  then have lo: "(2::rat) ^ k \<le> of_nat m - 1" using m2 by (simp add: of_nat_diff)
  have y1: "y \<le> 2 ^ Suc k" using m(1) up by linarith
  have y2: "2 ^ k < y" using m(2) lo by linarith
  have x: "x = 1 / y" using assms by (simp add: y_def)
  have y0: "0 < y" using y by simp
  have p1: "1 / 2 ^ Suc k \<le> x"
    unfolding x using y1 y0 by (intro divide_left_mono) simp_all
  have "0 < (2::rat) ^ k" by simp
  then have p2: "x < 1 / 2 ^ k"
    unfolding x using y2 y0 by (intro divide_strict_left_mono) simp_all
  have e: "binade x = - int (Suc k)"
    using assms m2 by (simp add: binade_def y_def [symmetric] m_def [symmetric] clog2_def k_def)
  have nk: "nat (1 + int k) = Suc k" by simp
  have q1: "(2::rat) powi (- int (Suc k)) = 1 / 2 ^ Suc k"
    by (simp add: power_int_def field_simps nk)
  have q2: "(2::rat) powi (- int (Suc k) + 1) = 1 / 2 ^ k"
    by (simp add: power_int_def field_simps nk)
  show ?thesis
    unfolding e q1 q2 using p1 p2 by simp
qed

lemma binade_bounds:
  assumes "0 < x"
  shows "2 powi binade x \<le> x \<and> x < 2 powi (binade x + 1)"
  using assms binade_ge1 [of x] binade_lt1 [of x] by (cases "1 \<le> x") simp_all

lemma round_to_double_error:
  "\<bar>round_to_double x - x\<bar> \<le> 2 powi (max (binade \<bar>x\<bar> - 52) (- 1074)) / 2"
proof (cases "x = 0")
  case True
  then show ?thesis by (simp add: round_to_double_def)
next
  case False
  define u :: rat where "u = 2 powi (max (binade \<bar>x\<bar> - 52) (- 1074))"
  define m where "m = round_half_even (\<bar>x\<bar> / u)"
  have u: "0 < u" by (simp add: u_def)
  have r: "round_to_double x = sgn x * of_int m * u"
    using False by (simp add: round_to_double_def Let_def u_def m_def)
  have x: "x = sgn x * (\<bar>x\<bar> / u) * u" using u by (simp add: sgn_mult_abs)
  have "round_to_double x - x = sgn x * (of_int m - \<bar>x\<bar> / u) * u"
    by (subst (2) x) (simp add: r algebra_simps)
  then have "\<bar>round_to_double x - x\<bar> = \<bar>of_int m - \<bar>x\<bar> / u\<bar> * u"
    using False u by (simp add: abs_mult abs_sgn_eq)
  also have "\<dots> \<le> (1 / 2) * u"
    using round_half_even_near [of "\<bar>x\<bar> / u"] u
    by (intro mult_right_mono) (simp_all add: m_def)
  finally show ?thesis by (simp add: u_def)
qed

lemma round_half_even_mono: "of_int k \<le> x \<Longrightarrow> k \<le> round_half_even x"
proof -
  assume "of_int k \<le> x"
  then have "k \<le> \<lfloor>x\<rfloor>" by (simp add: le_floor_iff)
  then show ?thesis by (auto simp add: round_half_even_def Let_def)
qed

lemma round_half_even_le: "x \<le> of_int k \<Longrightarrow> round_half_even x \<le> k"
proof -
  assume a: "x \<le> of_int k"
  have f: "of_int \<lfloor>x\<rfloor> \<le> x" by simp
  show ?thesis
  proof (cases "x = of_int \<lfloor>x\<rfloor>")
    case True
    then have "\<lfloor>x\<rfloor> \<le> k" using a by (metis of_int_le_iff)
    then show ?thesis using True by (simp add: round_half_even_def Let_def)
  next
    case False
    then have "(of_int \<lfloor>x\<rfloor> :: rat) < of_int k" using a f by linarith
    then have "\<lfloor>x\<rfloor> + 1 \<le> k" by simp
    then show ?thesis by (auto simp add: round_half_even_def Let_def)
  qed
qed

lemma round_to_double_mantissa:
  assumes "x \<noteq> 0" and "- 1022 \<le> binade \<bar>x\<bar>"
  shows "\<exists>m. round_to_double x = sgn x * of_int m * 2 powi (binade \<bar>x\<bar> - 52)
           \<and> 2 ^ 52 \<le> m \<and> m \<le> 2 ^ 53"
proof -
  define b where "b = binade \<bar>x\<bar>"
  define u :: rat where "u = 2 powi (b - 52)"
  define m where "m = round_half_even (\<bar>x\<bar> / u)"
  have q: "max (b - 52) (- 1074) = b - 52" using assms(2) by (simp add: b_def)
  have u: "0 < u" by (simp add: u_def)
  have r: "round_to_double x = sgn x * of_int m * u"
    using assms(1) by (simp add: round_to_double_def Let_def b_def [symmetric] q u_def m_def)
  have bb: "2 powi b \<le> \<bar>x\<bar>" "\<bar>x\<bar> < 2 powi (b + 1)"
    using binade_bounds [of "\<bar>x\<bar>"] assms(1) by (simp_all add: b_def)
  have s1: "(2::rat) powi b = 2 ^ 52 * u"
    by (simp add: u_def power_int_diff)
  have s2: "(2::rat) powi (b + 1) = 2 ^ 53 * u"
    by (simp add: u_def power_int_diff power_int_add)
  have "2 ^ 52 \<le> \<bar>x\<bar> / u" using bb(1) u by (simp add: s1 pos_le_divide_eq)
  then have "of_int (2 ^ 52) \<le> \<bar>x\<bar> / u" by simp
  then have lo: "2 ^ 52 \<le> m" unfolding m_def by (rule round_half_even_mono)
  have "\<bar>x\<bar> / u \<le> 2 ^ 53" using bb(2) u by (simp add: s2 pos_divide_le_eq)
  then have "\<bar>x\<bar> / u \<le> of_int (2 ^ 53)" by simp
  then have hi: "m \<le> 2 ^ 53" unfolding m_def by (rule round_half_even_le)
  show ?thesis using r lo hi by (auto simp add: u_def b_def)
qed

section \<open>Properties of the duplicate cache\<close>

subsection \<open>C strings and the byte layout\<close>

lemma c_str_id: "NUL \<notin> set s \<Longrightarrow> c_str s = s"
  by (auto simp add: c_str_def)

lemma c_str_no_NUL: "NUL \<notin> set (c_str s)"
  unfolding c_str_def by (induction s) auto

lemma c_str_length: "length (c_str s) \<le> length s"
  unfolding c_str_def by (rule length_takeWhile_le)

lemma c_str_terminated: "NUL \<notin> set d \<Longrightarrow> c_str (d @ NUL # r) = d"
  by (simp add: c_str_def takeWhile_append)

lemma c_str_take: "NUL \<notin> set (take n (c_str s))"
  using c_str_no_NUL [of s] by (meson in_set_takeD)

lemma strncpy_s_zero:
  "0 < N \<Longrightarrow> c_str (strncpy_s (replicate N NUL) src (N - 1)) = take (N - 1) (c_str src)"
  by (auto simp add: strncpy_s_def Let_def c_str_terminated c_str_take)

lemma strncpy_s_length:
  "0 < N \<Longrightarrow> length (strncpy_s (replicate N NUL) src (N - 1)) = N"
  by (auto simp add: strncpy_s_def Let_def)

lemma le_decode_encode: "n < 256 ^ k \<Longrightarrow> le_decode (le_encode k n) = n"
proof (induction k arbitrary: n)
  case 0
  then show ?case by simp
next
  case (Suc k)
  have "n div 256 < 256 ^ k" using Suc.prems by (simp add: less_mult_imp_div_less mult.commute)
  then show ?case using Suc.IH [of "n div 256"] by simp
qed

lemma length_le_encode: "length (le_encode k n) = k"
  by (induction k arbitrary: n) auto

lemma build_index_set: "build_index idx es = idx \<union> set (map (\<lambda>e. c_str (filename e)) es)"
  by (induction es arbitrary: idx) auto

lemma find_entry_None: "find_entry fname es = None \<longleftrightarrow> fname \<notin> set (map (\<lambda>e. c_str (filename e)) es)"
  by (induction es) auto

lemma find_entry_append:
  "find_entry fname (es @ [e]) = (case find_entry fname es of Some x \<Rightarrow> Some x | None \<Rightarrow> if c_str (filename e) = fname then Some e else None)"
  by (induction es) auto

lemma length_bytes_of_header: "length (bytes_of_header h) = 16"
  by (simp add: bytes_of_header_def length_le_encode)

lemma le_u32: "word_of_nat (le_decode (le_encode 4 (unat (w :: 32 word)))) = w"
proof -
  have "unat w < 256 ^ 4" using unsigned_less [of w, where ?'a = nat] by simp
  then show ?thesis by (simp only: le_decode_encode) simp
qed

lemma le_u64: "word_of_nat (le_decode (le_encode 8 (unat (w :: 64 word)))) = w"
proof -
  have "unat w < 256 ^ 8" using unsigned_less [of w, where ?'a = nat] by simp
  then show ?thesis by (simp only: le_decode_encode) simp
qed

lemma header_of_bytes_of_header: "header_of_bytes (bytes_of_header h @ rest) = h"
  by (simp add: header_of_bytes_def bytes_of_header_def length_le_encode
      le_u32 le_u64)

lemma length_bytes_of_entry: "wf_entry e \<Longrightarrow> length (bytes_of_entry e) = 360"
  by (simp add: wf_entry_def bytes_of_entry_def length_le_encode)

lemma entry_of_bytes_of_entry: "wf_entry e \<Longrightarrow> entry_of_bytes (bytes_of_entry e @ rest) = e"
  by (simp add: wf_entry_def entry_of_bytes_def bytes_of_entry_def length_le_encode
      le_u64)

lemma length_bytes_of_entries:
  "\<forall>e \<in> set es. wf_entry e \<Longrightarrow> length (bytes_of_entries es) = length es * 360"
  by (induction es) (simp_all add: bytes_of_entries_def length_bytes_of_entry)

lemma entries_of_bytes_of_entries:
  "\<forall>e \<in> set es. wf_entry e \<Longrightarrow> entries_of_bytes (length es) (bytes_of_entries es @ rest) = es"
proof (induction es)
  case Nil
  then show ?case by simp
next
  case (Cons e es)
  have e: "wf_entry e" and es: "\<forall>x \<in> set es. wf_entry x" using Cons.prems by simp_all
  have "bytes_of_entries (e # es) @ rest = bytes_of_entry e @ (bytes_of_entries es @ rest)"
    by (simp add: bytes_of_entries_def)
  then show ?case
    using Cons.IH [OF es] entry_of_bytes_of_entry [OF e, of "[]"] length_bytes_of_entry [OF e]
    by simp
qed

lemma wf_make_entry: "wf_entry (make_entry fname firsRef user now)"
  using strncpy_s_length [of 256 fname] strncpy_s_length [of 32 firsRef]
    strncpy_s_length [of 64 user]
  by (simp add: wf_entry_def make_entry_def CacheEntry_zero_def)

lemma terminated_make_entry: "filename_terminated (make_entry fname firsRef user now)"
  by (auto simp add: filename_terminated_def make_entry_def CacheEntry_zero_def strncpy_s_def
      Let_def)

lemma terminated_zero: "filename_terminated CacheEntry_zero"
  by (simp add: filename_terminated_def CacheEntry_zero_def)

lemma terminated_short:
  assumes "wf_entry e" and "filename_terminated e"
  shows "length (c_str (filename e)) \<le> 255"
proof -
  obtain ys zs where f: "filename e = ys @ NUL # zs" and n: "NUL \<notin> set ys"
    using assms(2) by (auto simp add: filename_terminated_def dest: split_list_first)
  have "c_str (filename e) = ys"
    using n by (simp add: f c_str_terminated)
  moreover have "length ys + Suc (length zs) = 256"
    using assms(1) by (simp add: wf_entry_def f)
  ultimately show ?thesis by simp
qed

lemma long_name_not_stored:
  assumes "\<forall>e \<in> set (m_entries c). wf_entry e \<and> filename_terminated e"
    and "255 < length fname"
  shows "fname \<notin> stored_names c"
proof
  assume "fname \<in> stored_names c"
  then obtain e where "e \<in> set (m_entries c)" "c_str (filename e) = fname"
    by (auto simp add: stored_names_def)
  then show False using assms terminated_short [of e] by auto
qed

lemma make_entry_filename:
  "c_str (filename (make_entry fname firsRef user now)) = take 255 (c_str fname)"
  using strncpy_s_zero [of 256 fname] by (simp add: make_entry_def CacheEntry_zero_def)

lemma make_entry_firsReference:
  "c_str (firsReference (make_entry fname firsRef user now)) = take 31 (c_str firsRef)"
  using strncpy_s_zero [of 32 firsRef] by (simp add: make_entry_def CacheEntry_zero_def)

lemma make_entry_submittedBy:
  "c_str (submittedBy (make_entry fname firsRef user now)) = take 63 (c_str user)"
  using strncpy_s_zero [of 64 user] by (simp add: make_entry_def CacheEntry_zero_def)

lemma Load_written:
  assumes wf: "\<forall>e \<in> set es. wf_entry e" and n: "length es < 2 ^ 32" and p: "path \<noteq> []"
    and fl: "contents fs path = Some (bytes_of_header \<lparr>version = 1, entryCount = word_of_nat (length es), lastSyncTimestamp = t\<rparr> @ bytes_of_entries es)"
  shows "Load old fs path = (True, \<lparr>m_cachePath = path, m_entries = es, m_filenameIndex = set (map (\<lambda>e. c_str (filename e)) es)\<rparr>)"
proof -
  let ?h = "\<lparr>version = 1, entryCount = word_of_nat (length es), lastSyncTimestamp = t\<rparr>"
  have cnt: "unat (word_of_nat (length es) :: 32 word) = length es"
    using n by (simp add: unat_of_nat)
  have hd: "stream_read (True, bytes_of_header ?h @ bytes_of_entries es) (bytes_of_header CacheHeader_default) 16
      = ((True, bytes_of_entries es), bytes_of_header ?h)"
    by (simp add: stream_read_def Let_def length_bytes_of_header)
  have body: "stream_read (True, bytes_of_entries es) buf (length es * 360)
      = ((True, []), bytes_of_entries es @ drop (length es * 360) buf)" for buf
    by (simp add: stream_read_def Let_def length_bytes_of_entries [OF wf])
  show ?thesis
    using entries_of_bytes_of_entries [OF wf]
    by (cases old) (simp add: Load_def open_read_def p fl hd body cnt Let_def
        header_of_bytes_of_header [of _ "[]", simplified] build_index_set)
qed

lemma AddEntry_fst:
  "fst (AddEntry c fs fname firsRef user now now') =
     c\<lparr>m_entries := m_entries c @ [make_entry fname firsRef user now],
       m_filenameIndex := insert fname (m_filenameIndex c)\<rparr>"
  by (simp add: AddEntry_def Let_def)

lemma stored_names_AddEntry:
  "stored_names (fst (AddEntry c fs fname firsRef user now now')) =
     insert (take 255 (c_str fname)) (stored_names c)"
  by (auto simp add: AddEntry_fst stored_names_def make_entry_filename)

lemma find_entry_stored:
  "find_entry fname (m_entries c) = None \<longleftrightarrow> fname \<notin> stored_names c"
  by (simp add: stored_names_def find_entry_None)

lemma Check_added:
  assumes "fname \<notin> stored_names c" and "take 255 (c_str fname) = fname"
  shows "Check (fst (AddEntry c fs fname firsRef user now now')) fname =
     \<lparr>status = AlreadySubmitted, dup_firsReference = take 31 (c_str firsRef),
      dup_submittedBy = take 63 (c_str user), dup_submitTimestamp = now\<rparr>"
proof -
  have "find_entry fname (m_entries c) = None"
    using assms(1) by (simp add: find_entry_stored)
  then have "find_entry fname (m_entries c @ [make_entry fname firsRef user now])
      = Some (make_entry fname firsRef user now)"
    using assms(2) by (simp add: find_entry_append make_entry_filename)
  then show ?thesis
    by (simp add: Check_def AddEntry_fst make_entry_firsReference make_entry_submittedBy)
      (simp add: make_entry_def)
qed

lemma Check_fallback:
  assumes "fname \<in> m_filenameIndex c" and "fname \<notin> stored_names c"
  shows "Check c fname = \<lparr>status = AlreadySubmitted, dup_firsReference = [],
     dup_submittedBy = [], dup_submitTimestamp = 0\<rparr>"
  using assms by (simp add: Check_def find_entry_stored [symmetric])

lemma Save_ok:
  assumes "open_write fs (m_cachePath c)"
  shows "Save c fs now = (True, fs\<lparr>contents := (contents fs)(m_cachePath c \<mapsto>
            bytes_of_header \<lparr>version = 1, entryCount = word_of_nat (length (m_entries c)),
              lastSyncTimestamp = now\<rparr> @ bytes_of_entries (m_entries c))\<rparr>)"
  using assms by (simp add: Save_def open_write_def Let_def)

lemma Load_missing:
  "open_read fs path = None \<Longrightarrow> Load c fs path = (True, c\<lparr>m_cachePath := path\<rparr>)"
  by (simp add: Load_def)




lemma c_str_long_name: "c_str long_name = long_name"
  by (simp add: c_str_def long_name_def)

lemma take_long_name: "take 255 long_name = replicate 255 CHR ''a''"
  by (simp add: long_name_def)

subsection \<open>What Check can answer\<close>

text \<open>
  C9. For every file name and every cache state, \<open>Check\<close> answers
  \<open>NotSubmitted\<close> or \<open>AlreadySubmitted\<close>, never \<open>CacheUnavailable\<close>; a name
  that is not in the index gets \<open>NotSubmitted\<close> with empty details. So it is on a
  cache object on which \<open>Load\<close> never ran, and on one whose \<open>Load\<close> found no
  file.
\<close>

theorem Check_never_unavailable:
  "status (Check c fname) \<noteq> CacheUnavailable
   \<and> (status (Check c fname) = NotSubmitted \<or> status (Check c fname) = AlreadySubmitted)
   \<and> (fname \<notin> m_filenameIndex c \<longrightarrow>
        Check c fname = \<lparr>status = NotSubmitted, dup_firsReference = [], dup_submittedBy = [],
                         dup_submitTimestamp = 0\<rparr>)
   \<and> status (Check DuplicateCache_new fname) = NotSubmitted
   \<and> (open_read fs path = None \<longrightarrow>
        status (Check (snd (Load DuplicateCache_new fs path)) fname) = NotSubmitted)"
proof -
  have "status (Check c fname) = (if fname \<in> m_filenameIndex c then AlreadySubmitted
      else NotSubmitted)" for c
    by (simp add: Check_def split: option.split)
  then show ?thesis
    by (simp add: Check_def Load_missing DuplicateCache_new_def)
qed

theorem Check_never_unavailable_witness:
  "''a.pdf'' \<notin> m_filenameIndex DuplicateCache_new
   \<and> Check DuplicateCache_new ''a.pdf''
       = \<lparr>status = NotSubmitted, dup_firsReference = [], dup_submittedBy = [],
          dup_submitTimestamp = 0\<rparr>
   \<and> open_read fs_example path_example = None
   \<and> status (Check (snd (Load DuplicateCache_new fs_example path_example)) ''a.pdf'')
       = NotSubmitted"
proof -
  have "open_read fs_example path_example = None"
    by (simp add: open_read_def fs_example_def)
  then show ?thesis
    using Check_never_unavailable [of DuplicateCache_new "''a.pdf''" fs_example path_example]
    by (simp add: DuplicateCache_new_def)
qed

subsection \<open>Adding an entry, then checking\<close>

text \<open>
  C1, as amended. Let the file name have at most 255 bytes, the reference at most 31 and
  the user at most 63, none with a NUL byte, and let no record of the cache be stored
  under the file name. Then after \<open>AddEntry\<close> of the three, \<open>Check\<close> of the
  file name answers \<open>AlreadySubmitted\<close> with exactly that reference and user (and
  the time of the call). Every other file name that was not in the index before
  the call is still answered \<open>NotSubmitted\<close>.
\<close>

theorem AddEntry_then_Check:
  "(length fname \<le> 255 \<and> NUL \<notin> set fname \<and> length firsRef \<le> 31 \<and> NUL \<notin> set firsRef
      \<and> length user \<le> 63 \<and> NUL \<notin> set user \<and> fname \<notin> stored_names c \<longrightarrow>
    Check (fst (AddEntry c fs fname firsRef user now now')) fname =
      \<lparr>status = AlreadySubmitted, dup_firsReference = firsRef, dup_submittedBy = user,
       dup_submitTimestamp = now\<rparr>)
   \<and> (other \<noteq> fname \<and> other \<notin> m_filenameIndex c \<longrightarrow>
    Check (fst (AddEntry c fs fname firsRef user now now')) other =
      \<lparr>status = NotSubmitted, dup_firsReference = [], dup_submittedBy = [],
       dup_submitTimestamp = 0\<rparr>)"
proof (intro conjI impI)
  assume a: "length fname \<le> 255 \<and> NUL \<notin> set fname \<and> length firsRef \<le> 31 \<and> NUL \<notin> set firsRef
      \<and> length user \<le> 63 \<and> NUL \<notin> set user \<and> fname \<notin> stored_names c"
  then have "take 255 (c_str fname) = fname" "take 31 (c_str firsRef) = firsRef"
    "take 63 (c_str user) = user"
    by (simp_all add: c_str_id)
  then show "Check (fst (AddEntry c fs fname firsRef user now now')) fname =
      \<lparr>status = AlreadySubmitted, dup_firsReference = firsRef, dup_submittedBy = user,
       dup_submitTimestamp = now\<rparr>"
    using a by (simp add: Check_added)
next
  assume "other \<noteq> fname \<and> other \<notin> m_filenameIndex c"
  then show "Check (fst (AddEntry c fs fname firsRef user now now')) other =
      \<lparr>status = NotSubmitted, dup_firsReference = [], dup_submittedBy = [],
       dup_submitTimestamp = 0\<rparr>"
    by (simp add: Check_def AddEntry_fst)
qed

theorem AddEntry_then_Check_witness:
  "Check (fst (AddEntry DuplicateCache_new fs_example ''X.pdf'' ''FIRS-1'' ''bob'' 5 6)) ''X.pdf'' =
      \<lparr>status = AlreadySubmitted, dup_firsReference = ''FIRS-1'', dup_submittedBy = ''bob'',
       dup_submitTimestamp = 5\<rparr>
   \<and> Check (fst (AddEntry DuplicateCache_new fs_example ''X.pdf'' ''FIRS-1'' ''bob'' 5 6)) ''Y.pdf'' =
      \<lparr>status = NotSubmitted, dup_firsReference = [], dup_submittedBy = [],
       dup_submitTimestamp = 0\<rparr>"
  using AddEntry_then_Check [where fname = "''X.pdf''" and firsRef = "''FIRS-1''"
      and user = "''bob''" and c = DuplicateCache_new and fs = fs_example and now = 5
      and now' = 6 and other = "''Y.pdf''"]
  by (simp add: stored_names_def DuplicateCache_new_def)

text \<open>
  C1 as stated fails: the record keeps 31 bytes of the reference, so a reference of 32
  bytes does not come back from \<open>Check\<close>.
\<close>

theorem AddEntry_truncates_reference:
  "dup_firsReference (Check (fst (AddEntry DuplicateCache_new fs_example ''X.pdf''
      ''FIRS-2024-00847392-EXTENDED-0001'' ''bob'' 5 6)) ''X.pdf'')
    = ''FIRS-2024-00847392-EXTENDED-000''
   \<and> dup_firsReference (Check (fst (AddEntry DuplicateCache_new fs_example ''X.pdf''
      ''FIRS-2024-00847392-EXTENDED-0001'' ''bob'' 5 6)) ''X.pdf'')
    \<noteq> ''FIRS-2024-00847392-EXTENDED-0001''"
proof -
  have "''X.pdf'' \<notin> stored_names DuplicateCache_new"
    by (simp add: stored_names_def DuplicateCache_new_def)
  moreover have "take 255 (c_str ''X.pdf'') = ''X.pdf''"
    by (simp add: c_str_def)
  ultimately show ?thesis
    by (simp add: Check_added) (simp add: c_str_def)
qed

subsection \<open>Saving, then loading\<close>

text \<open>
  C3, as amended. For every store of fewer than \<open>2^32\<close> records, each with fields of
  the arrays' sizes and a NUL in its file name array, whose cache path can be opened for
  writing: \<open>Save\<close> succeeds, and \<open>Load\<close> of the written file, on any cache
  object, yields the same records in the same order and an index that is exactly the
  set of their stored file names.
\<close>

theorem Save_then_Load:
  assumes "open_write fs (m_cachePath c)"
    and "\<forall>e \<in> set (m_entries c). wf_entry e"
    and "length (m_entries c) < 2 ^ 32"
    and "\<forall>e \<in> set (m_entries c). filename_terminated e"
  shows "fst (Save c fs now) = True
    \<and> Load old (snd (Save c fs now)) (m_cachePath c) =
        (True, \<lparr>m_cachePath = m_cachePath c, m_entries = m_entries c,
                m_filenameIndex = stored_names c\<rparr>)"
proof -
  have p: "m_cachePath c \<noteq> []" using assms(1) by (simp add: open_write_def)
  show ?thesis
    using Load_written [OF assms(2) assms(3) p, where old = old and t = now
        and fs = "snd (Save c fs now)"]
    by (simp add: Save_ok [OF assms(1)] stored_names_def)
qed

theorem Save_then_Load_witness:
  "Load DuplicateCache_new (snd (Save cache_example fs_example 9)) path_example =
        (True, \<lparr>m_cachePath = path_example, m_entries = m_entries cache_example,
                m_filenameIndex = {''a.pdf'', ''b.pdf''}\<rparr>)"
proof -
  have "open_write fs_example (m_cachePath cache_example)"
    by (simp add: open_write_def fs_example_def cache_example_def path_example_def)
  moreover have "\<forall>e \<in> set (m_entries cache_example). wf_entry e"
    by (simp add: cache_example_def wf_make_entry)
  moreover have "length (m_entries cache_example) < 2 ^ 32"
    by (simp add: cache_example_def)
  moreover have "\<forall>e \<in> set (m_entries cache_example). filename_terminated e"
    by (simp add: cache_example_def terminated_make_entry)
  moreover have "stored_names cache_example = {''a.pdf'', ''b.pdf''}"
    by (simp add: stored_names_def cache_example_def make_entry_filename) (simp add: c_str_def)
  ultimately show ?thesis
    using Save_then_Load [where fs = fs_example and c = cache_example
        and old = DuplicateCache_new and now = 9]
    by (simp add: cache_example_def)
qed

text \<open>
  C3 as stated fails at \<open>2^32\<close> records (each of them zero, so of the arrays' sizes
  and with a NUL in its file name array): the header's count is the size cast to 32
  bits, here 0, so the written file loads as the empty store.
\<close>

theorem Save_then_Load_wraps:
  "fst (Save cache_huge fs_example 9) = True
   \<and> m_entries (snd (Load DuplicateCache_new (snd (Save cache_huge fs_example 9)) path_example)) = []
   \<and> m_entries (snd (Load DuplicateCache_new (snd (Save cache_huge fs_example 9)) path_example))
        \<noteq> m_entries cache_huge
   \<and> wf_entry CacheEntry_zero
   \<and> filename_terminated CacheEntry_zero
   \<and> m_filenameIndex (snd (Load DuplicateCache_new (snd (Save cache_huge fs_example 9)) path_example)) = {}
   \<and> stored_names cache_huge = {[]}"
proof -
  have w: "open_write fs_example (m_cachePath cache_huge)"
    by (simp add: open_write_def fs_example_def cache_huge_def path_example_def)
  have z: "(word_of_nat (length (m_entries cache_huge)) :: 32 word) = 0"
    by (simp add: cache_huge_def)
  have p: "path_example \<noteq> []" by (simp add: path_example_def)
  have hd: "stream_read (True, bytes_of_header h @ rest) (bytes_of_header CacheHeader_default) 16
      = ((True, rest), bytes_of_header h)" for h rest
    by (simp add: stream_read_def Let_def length_bytes_of_header)
  have body0: "stream_read (True, rest) [] 0 = ((True, rest), [])" for rest
    by (simp add: stream_read_def)
  have ld: "Load DuplicateCache_new (snd (Save cache_huge fs_example 9)) path_example
     = (True, \<lparr>m_cachePath = path_example, m_entries = [], m_filenameIndex = {}\<rparr>)"
    using p
    by (simp add: Save_ok [OF w] z Load_def open_read_def hd
        header_of_bytes_of_header [of _ "[]", simplified] resize_def
        body0 bytes_of_entries_def DuplicateCache_new_def)
      (simp add: cache_huge_def)
  have sv: "fst (Save cache_huge fs_example 9) = True"
    by (simp add: Save_ok [OF w])
  have ne: "m_entries cache_huge \<noteq> []"
    by (simp add: cache_huge_def)
  have sn: "stored_names cache_huge = {[]}"
    by (simp add: stored_names_def cache_huge_def CacheEntry_zero_def c_str_def)
  show ?thesis
    by (simp add: ld sn sv ne [symmetric] terminated_zero) (simp add: wf_entry_def CacheEntry_zero_def)
qed

subsection \<open>Loading a missing file or a file of another version\<close>




subsection \<open>The index and the stored file names\<close>

text \<open>
  \<open>Load\<close> either rebuilds the index as the set of stored file names or leaves the
  cache as it was, and \<open>AddEntry\<close> keeps the two equal for a file name that fits
  its array.
\<close>

lemma Load_index: "m_filenameIndex (snd (Load c fs path)) = stored_names (snd (Load c fs path))
  \<or> snd (Load c fs path) = c\<lparr>m_cachePath := path\<rparr>"
  by (auto simp add: Load_def Let_def stored_names_def build_index_set split: option.splits prod.splits)

lemma AddEntry_index:
  assumes "m_filenameIndex c = stored_names c" and "length fname \<le> 255" and "NUL \<notin> set fname"
  shows "m_filenameIndex (fst (AddEntry c fs fname firsRef user now now'))
    = stored_names (fst (AddEntry c fs fname firsRef user now now'))"
  using assms by (simp add: stored_names_AddEntry c_str_id) (simp add: AddEntry_fst)

text \<open>
  C2. The index is not always the set of stored file names: \<open>AddEntry\<close> puts the
  whole file name into the index and at most 255 bytes of it into the record. With a
  file name of 256 bytes on a new cache the two sets differ.
\<close>

theorem AddEntry_long_name_breaks_index:
  "m_filenameIndex (fst (AddEntry DuplicateCache_new fs_example long_name ''FIRS-1'' ''bob'' 5 6))
      = {replicate 256 CHR ''a''}
   \<and> stored_names (fst (AddEntry DuplicateCache_new fs_example long_name ''FIRS-1'' ''bob'' 5 6))
      = {replicate 255 CHR ''a''}
   \<and> m_filenameIndex (fst (AddEntry DuplicateCache_new fs_example long_name ''FIRS-1'' ''bob'' 5 6))
      \<noteq> stored_names (fst (AddEntry DuplicateCache_new fs_example long_name ''FIRS-1'' ''bob'' 5 6))"
proof -
  have i: "m_filenameIndex (fst (AddEntry DuplicateCache_new fs_example long_name ''FIRS-1'' ''bob'' 5 6))
      = {replicate 256 CHR ''a''}"
    by (simp add: AddEntry_fst DuplicateCache_new_def long_name_def)
  have s: "stored_names (fst (AddEntry DuplicateCache_new fs_example long_name ''FIRS-1'' ''bob'' 5 6))
      = {replicate 255 CHR ''a''}"
    by (simp add: stored_names_AddEntry c_str_long_name take_long_name)
      (simp add: stored_names_def DuplicateCache_new_def)
  have "replicate 256 CHR ''a'' \<noteq> replicate 255 CHR ''a''"
  proof
    assume "replicate 256 CHR ''a'' = replicate 255 CHR ''a''"
    then have "length (replicate 256 CHR ''a'') = length (replicate 255 CHR ''a'')"
      by (rule arg_cong)
    then show False by simp
  qed
  then show ?thesis by (simp add: i s)
qed


subsection \<open>The fallback branch of Check\<close>

text \<open>
  C10. Let the records of the cache have fields of the arrays' sizes and a NUL in the
  file name array. When the file name is in the index and no record is stored under it,
  \<open>Check\<close> answers \<open>AlreadySubmitted\<close> with empty reference, empty user and
  timestamp 0. The branch is reached: after \<open>AddEntry\<close> of any file name longer
  than 255 bytes the index holds the whole name, the new record holds at most 255 bytes
  of it, no record is stored under the name, and \<open>Check\<close> of the name takes this
  branch.
\<close>

theorem Check_fallback_reachable:
  "((\<forall>e \<in> set (m_entries c). wf_entry e \<and> filename_terminated e)
      \<and> fname \<in> m_filenameIndex c \<and> fname \<notin> stored_names c \<longrightarrow>
      Check c fname = \<lparr>status = AlreadySubmitted, dup_firsReference = [], dup_submittedBy = [],
                       dup_submitTimestamp = 0\<rparr>)
   \<and> ((\<forall>e \<in> set (m_entries c). wf_entry e \<and> filename_terminated e)
      \<and> 255 < length fname \<longrightarrow>
      fname \<in> m_filenameIndex (fst (AddEntry c fs fname firsRef user now now'))
      \<and> (\<forall>e \<in> set (m_entries (fst (AddEntry c fs fname firsRef user now now'))).
            wf_entry e \<and> filename_terminated e)
      \<and> c_str (filename (last (m_entries (fst (AddEntry c fs fname firsRef user now now')))))
          = take 255 (c_str fname)
      \<and> take 255 (c_str fname) \<noteq> fname
      \<and> fname \<notin> stored_names (fst (AddEntry c fs fname firsRef user now now'))
      \<and> Check (fst (AddEntry c fs fname firsRef user now now')) fname =
          \<lparr>status = AlreadySubmitted, dup_firsReference = [], dup_submittedBy = [],
           dup_submitTimestamp = 0\<rparr>)"
proof (intro conjI impI)
  assume "(\<forall>e \<in> set (m_entries c). wf_entry e \<and> filename_terminated e)
      \<and> fname \<in> m_filenameIndex c \<and> fname \<notin> stored_names c"
  then show "Check c fname = \<lparr>status = AlreadySubmitted, dup_firsReference = [],
      dup_submittedBy = [], dup_submitTimestamp = 0\<rparr>"
    by (simp add: Check_fallback)
next
  assume a: "(\<forall>e \<in> set (m_entries c). wf_entry e \<and> filename_terminated e)
      \<and> 255 < length fname"
  let ?c = "fst (AddEntry c fs fname firsRef user now now')"
  have o: "fname \<notin> stored_names c"
    using a by (simp add: long_name_not_stored)
  show i: "fname \<in> m_filenameIndex ?c"
    by (simp add: AddEntry_fst)
  show "\<forall>e \<in> set (m_entries ?c). wf_entry e \<and> filename_terminated e"
    using a by (simp add: AddEntry_fst wf_make_entry terminated_make_entry)
  show "c_str (filename (last (m_entries ?c))) = take 255 (c_str fname)"
    by (simp add: AddEntry_fst make_entry_filename)
  have "length (take 255 (c_str fname)) \<le> 255" by simp
  then show t: "take 255 (c_str fname) \<noteq> fname"
    using a by (metis not_less)
  show s: "fname \<notin> stored_names ?c"
    using o t by (simp add: stored_names_AddEntry)
  show "Check ?c fname = \<lparr>status = AlreadySubmitted, dup_firsReference = [],
      dup_submittedBy = [], dup_submitTimestamp = 0\<rparr>"
    using i s by (rule Check_fallback)
qed

theorem Check_fallback_reachable_witness:
  "255 < length long_name
   \<and> long_name \<in> m_filenameIndex (fst (AddEntry cache_example fs_example long_name ''FIRS-1'' ''bob'' 5 6))
   \<and> long_name \<notin> stored_names (fst (AddEntry cache_example fs_example long_name ''FIRS-1'' ''bob'' 5 6))
   \<and> Check (fst (AddEntry cache_example fs_example long_name ''FIRS-1'' ''bob'' 5 6)) long_name =
          \<lparr>status = AlreadySubmitted, dup_firsReference = [], dup_submittedBy = [],
           dup_submitTimestamp = 0\<rparr>"
proof -
  have h: "(\<forall>e \<in> set (m_entries cache_example). wf_entry e \<and> filename_terminated e)
      \<and> 255 < length long_name"
    by (simp add: long_name_def cache_example_def wf_make_entry terminated_make_entry)
  note reached = Check_fallback_reachable [where fname = long_name and c = cache_example
      and fs = fs_example and firsRef = "''FIRS-1''" and user = "''bob''" and now = 5 and now' = 6,
      THEN conjunct2, THEN mp, OF h]
  have again: "Check (fst (AddEntry cache_example fs_example long_name ''FIRS-1'' ''bob'' 5 6))
      long_name = \<lparr>status = AlreadySubmitted, dup_firsReference = [], dup_submittedBy = [],
           dup_submitTimestamp = 0\<rparr>"
    using reached
      Check_fallback_reachable [where fname = long_name
        and c = "fst (AddEntry cache_example fs_example long_name ''FIRS-1'' ''bob'' 5 6)",
        THEN conjunct1]
    by blast
  show ?thesis
    using h reached again by blast
qed

section \<open>Properties of the router\<close>

subsection \<open>Evaluating characters and expressions\<close>

lemma char_of_eq_iff: "char_of (n :: nat) = c \<longleftrightarrow> n mod 256 = of_char c"
proof
  assume "char_of n = c"
  then have "of_char (char_of n) = (of_char c :: nat)" by simp
  then show "n mod 256 = of_char c" by simp
next
  assume "n mod 256 = of_char c"
  then have "(of_char (char_of n) :: nat) = of_char c" by simp
  then show "char_of n = c" by (simp only: of_char_eq_iff)
qed

lemma eq_char_of_iff: "c = char_of (n :: nat) \<longleftrightarrow> n mod 256 = of_char c"
  using char_of_eq_iff [of n c] by auto

lemma char_of_eq_char_of_iff:
  "char_of (m :: nat) = char_of (n :: nat) \<longleftrightarrow> m mod 256 = n mod 256"
  by (metis char_of_eq_iff of_char_of)

lemma times_numeral: "times (numeral k) r = Seq r (times (pred_numeral k) r)"
  by (simp add: numeral_eq_Suc)

lemmas char_eval = char_of_eq_iff eq_char_of_iff char_of_eq_char_of_iff

lemmas regex_eval = char_eval tolower_def is_digit_def is_space_def between_def opt_def
  times_numeral alt_def seq_def separator_def billing_words_def

subsection \<open>The search decides the grammar's matching\<close>

inductive_simps matches_Null: "matches Null u"
inductive_simps matches_Eps: "matches Eps u"
inductive_simps matches_Lit: "matches (Lit d) u"
inductive_simps matches_Digit: "matches Digit u"
inductive_simps matches_Space: "matches Space u"
inductive_simps matches_Dot: "matches Dot u"
inductive_simps matches_Alt: "matches (Alt r s) u"
inductive_simps matches_Seq: "matches (Seq r s) u"

lemmas matches_simps = matches_Null matches_Eps matches_Lit matches_Digit matches_Space
  matches_Dot matches_Alt matches_Seq

lemma matches_Star_Cons:
  "matches (Star r) (c # w) \<longleftrightarrow> (\<exists>u v. w = u @ v \<and> matches r (c # u) \<and> matches (Star r) v)"
proof
  assume "matches (Star r) (c # w)"
  then show "\<exists>u v. w = u @ v \<and> matches r (c # u) \<and> matches (Star r) v"
  proof (induction "Star r" "c # w" arbitrary: w rule: matches.induct)
    case (StarS u v)
    show ?case
    proof (cases u)
      case Nil
      then show ?thesis using StarS by simp
    next
      case (Cons a u')
      then have "w = u' @ v" "matches r (c # u')" using StarS by simp_all
      then show ?thesis using StarS.hyps(3) by blast
    qed
  qed
next
  assume "\<exists>u v. w = u @ v \<and> matches r (c # u) \<and> matches (Star r) v"
  then obtain u v where "w = u @ v" "matches r (c # u)" "matches (Star r) v" by blast
  then show "matches (Star r) (c # w)"
    using matches.StarS [of r "c # u" v] by simp
qed

lemma nullable_matches: "nullable r \<longleftrightarrow> matches r []"
  by (induction r) (auto simp add: matches_simps intro: matches.Star0)

lemma matches_alt: "matches (alt r s) w \<longleftrightarrow> matches r w \<or> matches s w"
  by (auto simp add: alt_def matches_simps)

lemma matches_seq:
  "matches (seq r s) w \<longleftrightarrow> (\<exists>u v. w = u @ v \<and> matches r u \<and> matches s v)"
  by (auto simp add: seq_def matches_simps)

lemma matches_deriv: "matches (deriv c r) w \<longleftrightarrow> matches r (c # w)"
proof (induction r arbitrary: w)
  case (Seq r s)
  show ?case
  proof
    assume "matches (deriv c (Seq r s)) w"
    then consider u v where "w = u @ v" "matches (deriv c r) u" "matches s v"
      | "nullable r" "matches (deriv c s) w"
      by (auto simp add: matches_alt matches_seq split: if_splits)
    then show "matches (Seq r s) (c # w)"
    proof cases
      case 1
      then have "matches r (c # u)" by (simp add: Seq.IH)
      then have "matches (Seq r s) ((c # u) @ v)" using 1(3) by (rule matches.Seq)
      then show ?thesis using 1(1) by simp
    next
      case 2
      then have "matches r []" "matches s (c # w)" by (simp_all add: nullable_matches Seq.IH)
      then have "matches (Seq r s) ([] @ c # w)" by (rule matches.Seq)
      then show ?thesis by simp
    qed
  next
    assume "matches (Seq r s) (c # w)"
    then obtain u v where uv: "c # w = u @ v" "matches r u" "matches s v"
      by (auto simp add: matches_Seq)
    show "matches (deriv c (Seq r s)) w"
    proof (cases u)
      case Nil
      then show ?thesis
        using uv Seq.IH by (auto simp add: matches_alt matches_seq nullable_matches)
    next
      case (Cons a u')
      then have "a = c" "w = u' @ v" using uv by simp_all
      then show ?thesis
        using uv Cons Seq.IH by (auto simp add: matches_alt matches_seq)
    qed
  qed
next
  case (Star r)
  then show ?case by (simp add: matches_seq matches_Star_Cons)
qed (auto simp add: matches_simps matches_alt)

lemma match_prefix_matches:
  "match_prefix r w \<longleftrightarrow> (\<exists>u v. w = u @ v \<and> matches r u)"
proof (induction w arbitrary: r)
  case Nil
  then show ?case by (simp add: nullable_matches)
next
  case (Cons c w)
  show ?case
  proof
    assume "match_prefix r (c # w)"
    then consider "matches r []" | "match_prefix (deriv c r) w"
      by (auto simp add: nullable_matches split: if_splits)
    then show "\<exists>u v. c # w = u @ v \<and> matches r u"
    proof cases
      case 1
      then show ?thesis by (metis append_Nil)
    next
      case 2
      then obtain u v where "w = u @ v" "matches r (c # u)"
        using Cons.IH [of "deriv c r"] by (auto simp add: matches_deriv)
      then show ?thesis by (metis append_Cons)
    qed
  next
    assume "\<exists>u v. c # w = u @ v \<and> matches r u"
    then obtain u v where uv: "c # w = u @ v" "matches r u" by blast
    show "match_prefix r (c # w)"
    proof (cases u)
      case Nil
      then have "nullable r" using uv by (simp add: nullable_matches)
      then show ?thesis by simp
    next
      case (Cons a u')
      then have "w = u' @ v" "matches (deriv c r) u'"
        using uv by (simp_all add: matches_deriv)
      then show ?thesis using Cons.IH [of "deriv c r"] by auto
    qed
  qed
qed

lemma regex_search_matches:
  "regex_search w r \<longleftrightarrow> (\<exists>p u v. w = p @ u @ v \<and> matches r u)"
proof (induction w)
  case Nil
  then show ?case by (simp add: nullable_matches)
next
  case (Cons c w)
  show ?case
  proof
    assume "regex_search (c # w) r"
    then consider "match_prefix r (c # w)" | "regex_search w r"
      by (auto split: if_splits)
    then show "\<exists>p u v. c # w = p @ u @ v \<and> matches r u"
    proof cases
      case 1
      then obtain u v where "c # w = u @ v" "matches r u"
        by (auto simp add: match_prefix_matches)
      then show ?thesis by (metis append_Nil)
    next
      case 2
      then obtain p u v where "w = p @ u @ v" "matches r u"
        using Cons.IH by blast
      then show ?thesis by (metis append_Cons)
    qed
  next
    assume "\<exists>p u v. c # w = p @ u @ v \<and> matches r u"
    then obtain p u v where puv: "c # w = p @ u @ v" "matches r u" by blast
    show "regex_search (c # w) r"
    proof (cases p)
      case Nil
      then have "match_prefix r (c # w)"
        using puv by (auto simp add: match_prefix_matches)
      then show ?thesis by simp
    next
      case (Cons a p')
      then have "w = p' @ u @ v" using puv by simp
      then have "regex_search w r" using puv(2) Cons.IH by blast
      then show ?thesis by simp
    qed
  qed
qed

subsection \<open>Tier 1\<close>

lemma MatchFilename_loop_first:
  assumes "\<forall>q \<in> set pre. \<not> regex_search fname (filenameRegex q)"
    and "regex_search fname (filenameRegex p)"
  shows "MatchFilename_loop (pre @ p # post) fname =
     \<lparr>decision = Invoice, matchedPattern = description p, clientHint = name p,
      confidenceScore = hundredths 95\<rparr>"
  using assms by (induction pre) simp_all

lemma MatchFilename_loop_none:
  assumes "\<forall>q \<in> set ps. \<not> regex_search fname (filenameRegex q)"
  shows "MatchFilename_loop ps fname =
     \<lparr>decision = Unknown, matchedPattern = [], clientHint = [], confidenceScore = 0\<rparr>"
  using assms by (induction ps) simp_all

lemma MatchFilename_loop_Invoice:
  "decision (MatchFilename_loop ps fname) = Invoice \<longleftrightarrow>
     (\<exists>q \<in> set ps. regex_search fname (filenameRegex q))"
  by (induction ps) simp_all

lemma base_filename_wn_path: "base_filename wn_path = ''WN42752.pdf''"
proof -
  have "WideToUtf8 wn_path = ''C:'' @ [CHR 0x5C] @ ''inbox'' @ [CHR 0x5C] @ ''WN42752.pdf''"
    by (simp add: wn_path_def widen_def is_high_surrogate_def is_low_surrogate_def
        utf8_encode_def char_eval)
  then show ?thesis
    by (simp add: base_filename_def substr_def)
qed

subsection \<open>The file name decides first\<close>

text \<open>
  C5. When the base file name of the path matches a pattern of the table and none
  before it, \<open>Route\<close> returns \<open>Invoice\<close> with confidence 0.95, that pattern's
  description as matched pattern and its name as client hint, and makes no call of
  \<open>ExtractFirstPageText\<close>. Whenever some pattern matches, the decision is
  \<open>Invoice\<close> at 0.95 and the content is not read. Only when no pattern matches does
  \<open>Route\<close> run the content analysis, with its one call of the extraction.
\<close>

theorem Route_filename_short_circuit:
  "(m_patterns router = pre @ p # post
      \<and> (\<forall>q \<in> set pre. \<not> regex_search (base_filename pdfPath) (filenameRegex q))
      \<and> regex_search (base_filename pdfPath) (filenameRegex p) \<longrightarrow>
    Route router fs pdfPath =
      (\<lparr>decision = Invoice, matchedPattern = description p, clientHint = name p,
        confidenceScore = hundredths 95\<rparr>, []))
   \<and> ((\<exists>q \<in> set (m_patterns router). regex_search (base_filename pdfPath) (filenameRegex q)) \<longrightarrow>
        decision (fst (Route router fs pdfPath)) = Invoice
        \<and> confidenceScore (fst (Route router fs pdfPath)) = hundredths 95
        \<and> snd (Route router fs pdfPath) = [])
   \<and> ((\<forall>q \<in> set (m_patterns router). \<not> regex_search (base_filename pdfPath) (filenameRegex q)) \<longrightarrow>
        Route router fs pdfPath = AnalyzeContent fs pdfPath
        \<and> snd (Route router fs pdfPath) = [Call_ExtractFirstPageText pdfPath 500])"
proof (intro conjI impI)
  assume a: "m_patterns router = pre @ p # post
      \<and> (\<forall>q \<in> set pre. \<not> regex_search (base_filename pdfPath) (filenameRegex q))
      \<and> regex_search (base_filename pdfPath) (filenameRegex p)"
  then show "Route router fs pdfPath =
      (\<lparr>decision = Invoice, matchedPattern = description p, clientHint = name p,
        confidenceScore = hundredths 95\<rparr>, [])"
    by (simp add: Route_def MatchFilename_def MatchFilename_loop_first)
next
  assume a: "\<exists>q \<in> set (m_patterns router). regex_search (base_filename pdfPath) (filenameRegex q)"
  then have d: "decision (MatchFilename router (base_filename pdfPath)) = Invoice"
    by (simp add: MatchFilename_def MatchFilename_loop_Invoice)
  then show "decision (fst (Route router fs pdfPath)) = Invoice"
    and "snd (Route router fs pdfPath) = []"
    by (simp_all add: Route_def)
  have "confidenceScore (MatchFilename_loop ps fname) = hundredths 95"
    if "decision (MatchFilename_loop ps fname) = Invoice" for ps fname
    using that by (induction ps) (simp_all split: if_splits)
  then show "confidenceScore (fst (Route router fs pdfPath)) = hundredths 95"
    using d by (simp add: Route_def MatchFilename_def)
next
  assume a: "\<forall>q \<in> set (m_patterns router). \<not> regex_search (base_filename pdfPath) (filenameRegex q)"
  then have r: "Route router fs pdfPath = AnalyzeContent fs pdfPath"
    by (simp add: Route_def MatchFilename_def MatchFilename_loop_none)
  then show "Route router fs pdfPath = AnalyzeContent fs pdfPath" .
  show "snd (Route router fs pdfPath) = [Call_ExtractFirstPageText pdfPath 500]"
    by (simp add: r AnalyzeContent_def Let_def split: prod.split)
qed

theorem Route_filename_short_circuit_witness:
  "Route InvoiceRouter_new fs_pdf wn_path =
      (\<lparr>decision = Invoice, matchedPattern = ''ExecuJet work order / invoice'',
        clientHint = ''ExecuJet'', confidenceScore = hundredths 95\<rparr>, [])
   \<and> Route InvoiceRouter_new fs_pdf pdf_path = AnalyzeContent fs_pdf pdf_path
   \<and> snd (Route InvoiceRouter_new fs_pdf pdf_path) = [Call_ExtractFirstPageText pdf_path 500]"
proof -
  have s: "m_patterns InvoiceRouter_new =
      take 3 InitDefaultPatterns @ (InitDefaultPatterns ! 3) # drop 4 InitDefaultPatterns"
    by (simp add: InvoiceRouter_new_def InitDefaultPatterns_def)
  have n: "\<forall>q \<in> set (take 3 InitDefaultPatterns).
      \<not> regex_search (base_filename wn_path) (filenameRegex q)"
    by (simp add: base_filename_wn_path InitDefaultPatterns_def regex_eval)
  have y: "regex_search (base_filename wn_path) (filenameRegex (InitDefaultPatterns ! 3))"
    by (simp add: base_filename_wn_path InitDefaultPatterns_def regex_eval)
  have d: "description (InitDefaultPatterns ! 3) = ''ExecuJet work order / invoice''"
    "name (InitDefaultPatterns ! 3) = ''ExecuJet''"
    by (simp_all add: InitDefaultPatterns_def)
  have b: "base_filename pdf_path = ''scan0001.pdf''"
  proof -
    have "WideToUtf8 pdf_path = ''C:/docs/scan0001.pdf''"
      by (simp add: pdf_path_def widen_def is_high_surrogate_def is_low_surrogate_def
         utf8_encode_def char_eval)
    then show ?thesis by (simp add: base_filename_def substr_def)
  qed
  have z: "\<forall>q \<in> set (m_patterns InvoiceRouter_new).
      \<not> regex_search (base_filename pdf_path) (filenameRegex q)"
    by (simp add: b InvoiceRouter_new_def InitDefaultPatterns_def regex_eval)
  have one: "Route InvoiceRouter_new fs_pdf wn_path =
      (\<lparr>decision = Invoice, matchedPattern = ''ExecuJet work order / invoice'',
        clientHint = ''ExecuJet'', confidenceScore = hundredths 95\<rparr>, [])"
    using Route_filename_short_circuit [where router = InvoiceRouter_new and pdfPath = wn_path
        and pre = "take 3 InitDefaultPatterns" and p = "InitDefaultPatterns ! 3"
        and post = "drop 4 InitDefaultPatterns" and fs = fs_pdf] s n y d
    by simp
  have two: "Route InvoiceRouter_new fs_pdf pdf_path = AnalyzeContent fs_pdf pdf_path
      \<and> snd (Route InvoiceRouter_new fs_pdf pdf_path) = [Call_ExtractFirstPageText pdf_path 500]"
    using Route_filename_short_circuit [where router = InvoiceRouter_new and pdfPath = pdf_path
        and pre = "[]" and p = "InitDefaultPatterns ! 3" and post = "[]" and fs = fs_pdf] z
    by blast
  show ?thesis
    using one two by blast
qed

subsection \<open>The scoring loop\<close>

lemma marker_loop_filter:
  assumes "\<forall>m \<in> set ms. fst m \<noteq> []"
  shows "marker_loop ms upper score best =
     (foldl dbl_add score (map snd (filter (\<lambda>m. str_find upper (fst m) \<noteq> None) ms)),
      if best \<noteq> [] then best
      else first_name (filter (\<lambda>m. str_find upper (fst m) \<noteq> None) ms))"
  using assms
proof (induction ms arbitrary: score best)
  case Nil
  then show ?case by (simp add: first_name_def)
next
  case (Cons m ms)
  then show ?case by (simp add: first_name_def)
qed

lemma markers_named: "\<forall>m \<in> set markers. fst m \<noteq> []"
  by (simp add: markers_def)

lemma marker_loop_markers:
  "marker_loop markers upper 0 [] =
     (foldl dbl_add 0 (map snd (found_markers upper)), first_name (found_markers upper))"
  by (simp add: marker_loop_filter [OF markers_named] found_markers_def)

lemma AnalyzeContent_text:
  assumes "ExtractFirstPageText fs pdfPath 500 = excerpt" and "excerpt \<noteq> []"
  shows "fst (AnalyzeContent fs pdfPath) =
     (if hundredths 30 \<le> clamp_score (foldl dbl_add 0 (map snd (found_markers (map toupper excerpt))))
      then \<lparr>decision = Invoice,
             matchedPattern = ''Content analysis: '' @ first_name (found_markers (map toupper excerpt)),
             clientHint = [],
             confidenceScore = clamp_score (foldl dbl_add 0 (map snd (found_markers (map toupper excerpt))))\<rparr>
      else \<lparr>decision = NotInvoice, matchedPattern = [], clientHint = [],
             confidenceScore = dbl_sub 1 (clamp_score (foldl dbl_add 0 (map snd (found_markers (map toupper excerpt)))))\<rparr>)"
  using assms
  by (simp add: AnalyzeContent_def Let_def marker_loop_markers clamp_score_def)

lemma filter_by_names:
  assumes "distinct (map fst ms)" and "map fst (filter P ms) = names"
  shows "filter P ms = filter (\<lambda>m. fst m \<in> set names) ms"
proof (rule filter_cong [OF refl])
  fix m assume m: "m \<in> set ms"
  show "P m = (fst m \<in> set names)"
  proof
    assume "P m"
    then have "m \<in> set (filter P ms)" using m by simp
    then have "fst m \<in> set (map fst (filter P ms))" by (simp only: set_map) (rule imageI)
    then show "fst m \<in> set names" using assms(2) by simp
  next
    assume "fst m \<in> set names"
    then have "fst m \<in> fst ` set (filter P ms)" using assms(2) by auto
    then obtain m' where m': "m' \<in> set ms" "P m'" "fst m' = fst m" by auto
    have "inj_on fst (set ms)" using assms(1) by (simp add: distinct_map)
    then have "m' = m" using m m' by (auto dest: inj_onD)
    then show "P m" using m' by simp
  qed
qed

lemma markers_distinct: "distinct (map fst markers)"
  by (simp add: markers_def)

lemma found_two:
  assumes "map fst (found_markers upper) = [''INVOICE'', ''BILL TO'']"
  shows "found_markers upper = [(''INVOICE'', hundredths 25), (''BILL TO'', hundredths 20)]"
proof -
  have m: "map fst (filter (\<lambda>m. str_find upper (fst m) \<noteq> None) markers) = [''INVOICE'', ''BILL TO'']"
    using assms by (simp only: found_markers_def)
  have "found_markers upper = filter (\<lambda>m. fst m \<in> set [''INVOICE'', ''BILL TO'']) markers"
    unfolding found_markers_def by (rule filter_by_names [OF markers_distinct m])
  then show ?thesis by (simp add: markers_def)
qed

lemma score_two: "dbl_add (dbl_add 0 (hundredths 25)) (hundredths 20) = hundredths 45"
  by code_simp

lemma threshold_two: "hundredths 30 \<le> hundredths 45 \<and> \<not> 1 < hundredths 45"
  by code_simp

lemma threshold_zero: "\<not> hundredths 30 \<le> 0 \<and> dbl_sub 1 0 = 1"
  by code_simp

text \<open>The literals of the source are the doubles the compiler makes of them.\<close>

lemma double_literals:
  "hundredths 10 = 0x1999999999999A / 2 ^ 56"
  "hundredths 15 = 0x13333333333333 / 2 ^ 55"
  "hundredths 20 = 0x1999999999999A / 2 ^ 55"
  "hundredths 25 = 1 / 4"
  "hundredths 30 = 0x13333333333333 / 2 ^ 54"
  "hundredths 40 = 0x1999999999999A / 2 ^ 54"
  "hundredths 45 = 0x1CCCCCCCCCCCCD / 2 ^ 54"
  "hundredths 95 = 0x1E666666666666 / 2 ^ 53"
  by code_simp+

lemma extract_pdf:
  "ExtractFirstPageText fs_pdf pdf_path 500 = ''%PDF-1.4 Invoice for services Bill to: Acme Ltd''"
  by (simp add: ExtractFirstPageText_def open_read_def fs_pdf_def pdf_path_def memo_path_def
      pdf_bytes_def widen_def)

lemma upper_pdf:
  "map toupper ''%PDF-1.4 Invoice for services Bill to: Acme Ltd'' =
     ''%PDF-1.4 INVOICE FOR SERVICES BILL TO: ACME LTD''"
  by (simp add: toupper_def char_eval)

lemma found_pdf:
  "map fst (found_markers ''%PDF-1.4 INVOICE FOR SERVICES BILL TO: ACME LTD'') =
     [''INVOICE'', ''BILL TO'']"
  by (simp add: found_markers_def markers_def)

lemma extract_memo:
  "ExtractFirstPageText fs_pdf memo_path 500 = ''%PDF-1.4 Minutes of the meeting''"
  by (simp add: ExtractFirstPageText_def open_read_def fs_pdf_def pdf_path_def memo_path_def
      memo_bytes_def widen_def)

lemma upper_memo:
  "map toupper ''%PDF-1.4 Minutes of the meeting'' = ''%PDF-1.4 MINUTES OF THE MEETING''"
  by (simp add: toupper_def char_eval)

lemma found_memo: "found_markers ''%PDF-1.4 MINUTES OF THE MEETING'' = []"
  by (simp add: found_markers_def markers_def)

subsection \<open>Scoring the content\<close>

text \<open>
  C4. For a non-empty excerpt, the content analysis upper-cases it, adds the weights of
  the table's markers that occur in it (in table order, in double arithmetic) and clamps
  the sum to 1. With a clamped score of at least 0.30 the decision is \<open>Invoice\<close>,
  the confidence is the score and the matched pattern names the first marker found in
  table order; otherwise the decision is \<open>NotInvoice\<close> with confidence 1 minus the
  score. An excerpt whose markers are exactly INVOICE and BILL TO gives \<open>Invoice\<close>
  with confidence 0.45, and one with no marker gives \<open>NotInvoice\<close> with
  confidence 1.
\<close>

theorem AnalyzeContent_scoring:
  "(ExtractFirstPageText fs pdfPath 500 = excerpt \<and> excerpt \<noteq> [] \<longrightarrow>
      fst (AnalyzeContent fs pdfPath) =
       (if hundredths 30 \<le> clamp_score (foldl dbl_add 0 (map snd (found_markers (map toupper excerpt))))
        then \<lparr>decision = Invoice,
               matchedPattern = ''Content analysis: '' @ first_name (found_markers (map toupper excerpt)),
               clientHint = [],
               confidenceScore = clamp_score (foldl dbl_add 0 (map snd (found_markers (map toupper excerpt))))\<rparr>
        else \<lparr>decision = NotInvoice, matchedPattern = [], clientHint = [],
               confidenceScore = dbl_sub 1 (clamp_score (foldl dbl_add 0 (map snd (found_markers (map toupper excerpt)))))\<rparr>))
   \<and> (ExtractFirstPageText fs pdfPath 500 = excerpt \<and> excerpt \<noteq> []
        \<and> map fst (found_markers (map toupper excerpt)) = [''INVOICE'', ''BILL TO''] \<longrightarrow>
      fst (AnalyzeContent fs pdfPath) =
        \<lparr>decision = Invoice, matchedPattern = ''Content analysis: INVOICE'', clientHint = [],
         confidenceScore = hundredths 45\<rparr>)
   \<and> (ExtractFirstPageText fs pdfPath 500 = excerpt \<and> excerpt \<noteq> []
        \<and> found_markers (map toupper excerpt) = [] \<longrightarrow>
      fst (AnalyzeContent fs pdfPath) =
        \<lparr>decision = NotInvoice, matchedPattern = [], clientHint = [], confidenceScore = 1\<rparr>)"
proof (intro conjI impI)
  assume "ExtractFirstPageText fs pdfPath 500 = excerpt \<and> excerpt \<noteq> []"
  then show "fst (AnalyzeContent fs pdfPath) =
       (if hundredths 30 \<le> clamp_score (foldl dbl_add 0 (map snd (found_markers (map toupper excerpt))))
        then \<lparr>decision = Invoice,
               matchedPattern = ''Content analysis: '' @ first_name (found_markers (map toupper excerpt)),
               clientHint = [],
               confidenceScore = clamp_score (foldl dbl_add 0 (map snd (found_markers (map toupper excerpt))))\<rparr>
        else \<lparr>decision = NotInvoice, matchedPattern = [], clientHint = [],
               confidenceScore = dbl_sub 1 (clamp_score (foldl dbl_add 0 (map snd (found_markers (map toupper excerpt)))))\<rparr>)"
    by (simp add: AnalyzeContent_text)
next
  assume a: "ExtractFirstPageText fs pdfPath 500 = excerpt \<and> excerpt \<noteq> []
        \<and> map fst (found_markers (map toupper excerpt)) = [''INVOICE'', ''BILL TO'']"
  then have f: "found_markers (map toupper excerpt) = [(''INVOICE'', hundredths 25), (''BILL TO'', hundredths 20)]"
    by (simp add: found_two)
  have "fst (AnalyzeContent fs pdfPath) = 
       (if hundredths 30 \<le> clamp_score (foldl dbl_add 0 (map snd (found_markers (map toupper excerpt))))
        then \<lparr>decision = Invoice,
               matchedPattern = ''Content analysis: '' @ first_name (found_markers (map toupper excerpt)),
               clientHint = [],
               confidenceScore = clamp_score (foldl dbl_add 0 (map snd (found_markers (map toupper excerpt))))\<rparr>
        else \<lparr>decision = NotInvoice, matchedPattern = [], clientHint = [],
               confidenceScore = dbl_sub 1 (clamp_score (foldl dbl_add 0 (map snd (found_markers (map toupper excerpt)))))\<rparr>)"
    using a by (simp add: AnalyzeContent_text)
  then show "fst (AnalyzeContent fs pdfPath) =
        \<lparr>decision = Invoice, matchedPattern = ''Content analysis: INVOICE'', clientHint = [],
         confidenceScore = hundredths 45\<rparr>"
    using threshold_two by (simp add: f score_two clamp_score_def first_name_def)
next
  assume a: "ExtractFirstPageText fs pdfPath 500 = excerpt \<and> excerpt \<noteq> []
        \<and> found_markers (map toupper excerpt) = []"
  then show "fst (AnalyzeContent fs pdfPath) =
        \<lparr>decision = NotInvoice, matchedPattern = [], clientHint = [], confidenceScore = 1\<rparr>"
    using threshold_zero by (simp add: AnalyzeContent_text clamp_score_def)
qed


theorem AnalyzeContent_scoring_witness:
  "fst (AnalyzeContent fs_pdf pdf_path) =
      \<lparr>decision = Invoice, matchedPattern = ''Content analysis: INVOICE'', clientHint = [],
       confidenceScore = hundredths 45\<rparr>
   \<and> fst (AnalyzeContent fs_pdf memo_path) =
      \<lparr>decision = NotInvoice, matchedPattern = [], clientHint = [], confidenceScore = 1\<rparr>"
proof -
  have h1: "ExtractFirstPageText fs_pdf pdf_path 500 = ''%PDF-1.4 Invoice for services Bill to: Acme Ltd''
      \<and> ''%PDF-1.4 Invoice for services Bill to: Acme Ltd'' \<noteq> []
      \<and> map fst (found_markers (map toupper ''%PDF-1.4 Invoice for services Bill to: Acme Ltd''))
          = [''INVOICE'', ''BILL TO'']"
    by (simp only: extract_pdf upper_pdf found_pdf) simp
  have one: "fst (AnalyzeContent fs_pdf pdf_path) =
      \<lparr>decision = Invoice, matchedPattern = ''Content analysis: INVOICE'', clientHint = [],
       confidenceScore = hundredths 45\<rparr>"
    by (rule AnalyzeContent_scoring [where fs = fs_pdf and pdfPath = pdf_path
        and excerpt = "''%PDF-1.4 Invoice for services Bill to: Acme Ltd''",
        THEN conjunct2, THEN conjunct1, THEN mp, OF h1])
  have h2: "ExtractFirstPageText fs_pdf memo_path 500 = ''%PDF-1.4 Minutes of the meeting''
      \<and> ''%PDF-1.4 Minutes of the meeting'' \<noteq> []
      \<and> found_markers (map toupper ''%PDF-1.4 Minutes of the meeting'') = []"
    by (simp only: extract_memo upper_memo found_memo) simp
  have two: "fst (AnalyzeContent fs_pdf memo_path) =
      \<lparr>decision = NotInvoice, matchedPattern = [], clientHint = [], confidenceScore = 1\<rparr>"
    by (rule AnalyzeContent_scoring [where fs = fs_pdf and pdfPath = memo_path
        and excerpt = "''%PDF-1.4 Minutes of the meeting''",
        THEN conjunct2, THEN conjunct2, THEN mp, OF h2])
  show ?thesis using one two by blast
qed

section \<open>Properties of the relay client\<close>

subsection \<open>Reading a field of the response\<close>

text \<open>
  \<open>extractField\<close> finds the quoted key, skips one character after it and returns
  what stands between the next two double quotes.
\<close>

lemma str_find_char:
  "c \<notin> set xs \<Longrightarrow> str_find (xs @ c # ys) [c] = Some (length xs)"
  by (induction xs) auto

lemma str_find_from_char:
  assumes "drop p s = xs @ c # ys" and "c \<notin> set xs"
  shows "str_find_from s [c] p = Some (p + length xs)"
proof -
  have "p \<le> length s"
  proof (rule ccontr)
    assume "\<not> p \<le> length s"
    then have "drop p s = []" by simp
    then show False using assms(1) by simp
  qed
  then show ?thesis
    using assms(2) by (simp add: str_find_from_def assms(1) str_find_char)
qed

lemma extractField_value:
  assumes "str_find responseBody ([DQUOTE] @ key @ [DQUOTE]) = Some pos"
    and "drop (pos + length key + 3) responseBody = gap @ DQUOTE # val @ DQUOTE # rest"
    and "DQUOTE \<notin> set gap" and "DQUOTE \<notin> set val"
  shows "extractField responseBody key = val"
proof -
  define p where "p = pos + length ([DQUOTE] @ key @ [DQUOTE]) + 1"
  define p' where "p' = p + length gap"
  have p: "p = pos + length key + 3" by (simp add: p_def)
  have f1: "str_find_from responseBody [DQUOTE] p = Some p'"
    unfolding p'_def using assms(2) assms(3) unfolding p [symmetric]
    by (rule str_find_from_char)
  have "drop (length gap + 1) (drop p responseBody) = val @ DQUOTE # rest"
    using assms(2) by (simp add: p)
  then have d2: "drop (p' + 1) responseBody = val @ DQUOTE # rest"
    by (simp add: p'_def add.commute add.left_commute)
  have f2: "str_find_from responseBody [DQUOTE] (p' + 1) = Some (p' + 1 + length val)"
    using d2 assms(4) by (rule str_find_from_char)
  have "p' + 1 + length val - p' - 1 = length val" by simp
  then have s: "substr_n responseBody (p' + 1) (p' + 1 + length val - p' - 1) = val"
    unfolding substr_n_def d2 by simp
  show ?thesis
    unfolding extractField_def Let_def
    by (simp only: assms(1) option.case p_def [symmetric] f1 f2 s)
qed

subsection \<open>The status of the response\<close>

lemma SendRequest_not_received:
  "\<not> resp_success (SendRequest client net method path content contentType authToken) \<Longrightarrow>
     statusCode (SendRequest client net method path content contentType authToken) = 0"
  by (simp add: SendRequest_def RelayResponse_default_def split: if_splits winhttp_outcome.splits)

lemma SubmitInvoice_received:
  assumes "BuildMultipartBody fs dice pdfPath userEmail = (content, boundary)"
    and "content \<noteq> []"
    and "SendRequest client net (widen ''POST'') (widen ''/api/ingest'') content
           (''multipart/form-data; boundary='' @ boundary) sessionToken = resp"
    and "resp_success resp"
  shows "SubmitInvoice client fs net dice pdfPath userEmail sessionToken =
     (if statusCode resp = 200 \<or> statusCode resp = 201 then
        \<lparr>success = True, sub_firsReference = extractField (body resp) ''firs_reference'',
         fileUuid = extractField (body resp) ''file_uuid'', error = [],
         httpStatus = statusCode resp\<rparr>
      else if statusCode resp = 409 then
        \<lparr>success = False, sub_firsReference = [], fileUuid = [],
         error = ''Invoice already submitted (duplicate)'', httpStatus = statusCode resp\<rparr>
      else if statusCode resp = 429 then
        \<lparr>success = False, sub_firsReference = [], fileUuid = [],
         error = ''Daily submission limit exceeded'', httpStatus = statusCode resp\<rparr>
      else
        \<lparr>success = False, sub_firsReference = [], fileUuid = [],
         error = ''Relay returned HTTP '' @ to_string (statusCode resp),
         httpStatus = statusCode resp\<rparr>)"
  using assms by (simp add: SubmitInvoice_def Let_def SubmitResult_default_def)

lemma extract_relay_body:
  "extractField relay_body ''file_uuid'' = ''u-17''"
  "extractField relay_body ''firs_reference'' = ''FIRS-1''"
  by (simp_all add: extractField_def relay_body_def str_find_from_def substr_n_def)

lemma to_string_503: "to_string 503 = ''503''"
  by (simp add: to_string_def digits.simps char_eval)


lemma open_pdf: "open_read fs_pdf pdf_path = Some pdf_bytes"
  by (simp add: open_read_def fs_pdf_def pdf_path_def memo_path_def widen_def)

lemma build_pdf:
  "BuildMultipartBody fs_pdf dice_example pdf_path ''ann@example.com'' =
     (fst (BuildMultipartBody fs_pdf dice_example pdf_path ''ann@example.com''),
      snd (BuildMultipartBody fs_pdf dice_example pdf_path ''ann@example.com''))"
  "fst (BuildMultipartBody fs_pdf dice_example pdf_path ''ann@example.com'') \<noteq> []"
  by (simp_all add: BuildMultipartBody_def open_pdf Let_def)

lemma send_relay:
  "SendRequest RelayClient_new (relay_net code) method path content contentType authToken =
     \<lparr>statusCode = sint code, body = relay_body, resp_error = [], resp_success = True\<rparr>"
  by (simp add: SendRequest_def RelayClient_new_def relay_net_def)

text \<open>
  What \<open>extractField\<close> returns on a body that holds the field, and on one where the
  quoted key does not occur.
\<close>

lemma extractField_holds:
  assumes "holds_field responseBody key val"
  shows "extractField responseBody key = val"
proof -
  obtain pre c gap rest where
    b: "responseBody = pre @ [DQUOTE] @ key @ [DQUOTE] @ c # gap @ [DQUOTE] @ val @ [DQUOTE] @ rest"
    and f: "str_find responseBody ([DQUOTE] @ key @ [DQUOTE]) = Some (length pre)"
    and g: "DQUOTE \<notin> set gap" and v: "DQUOTE \<notin> set val"
    using assms unfolding holds_field_def by blast
  have "responseBody = (pre @ [DQUOTE] @ key @ [DQUOTE, c]) @ (gap @ DQUOTE # val @ DQUOTE # rest)"
    by (simp add: b)
  moreover have "length (pre @ [DQUOTE] @ key @ [DQUOTE, c]) = length pre + length key + 3"
    by simp
  ultimately have "drop (length pre + length key + 3) responseBody
      = gap @ DQUOTE # val @ DQUOTE # rest"
    by (metis append_eq_conv_conj)
  with f show ?thesis
    using g v by (rule extractField_value)
qed

lemma extractField_absent:
  "str_find responseBody ([DQUOTE] @ key @ [DQUOTE]) = None \<Longrightarrow> extractField responseBody key = []"
  by (simp add: extractField_def)

lemma holds_fieldI:
  assumes "responseBody = pre @ [DQUOTE] @ key @ [DQUOTE] @ c # gap @ [DQUOTE] @ val @ [DQUOTE] @ rest"
    and "str_find responseBody ([DQUOTE] @ key @ [DQUOTE]) = Some (length pre)"
    and "DQUOTE \<notin> set gap" and "DQUOTE \<notin> set val"
  shows "holds_field responseBody key val"
  unfolding holds_field_def using assms by blast

lemma holds_relay_body:
  "holds_field relay_body ''file_uuid'' ''u-17''"
  "holds_field relay_body ''firs_reference'' ''FIRS-1''"
proof -
  show "holds_field relay_body ''file_uuid'' ''u-17''"
    by (rule holds_fieldI [where pre = "''{''" and c = "CHR '':''" and gap = "'' ''"
          and rest = "'', '' @ [DQUOTE] @ ''firs_reference'' @ [DQUOTE] @ '': '' @ [DQUOTE]
            @ ''FIRS-1'' @ [DQUOTE] @ ''}''"])
      (simp_all add: relay_body_def)
  show "holds_field relay_body ''firs_reference'' ''FIRS-1''"
    by (rule holds_fieldI [where pre = "''{'' @ [DQUOTE] @ ''file_uuid'' @ [DQUOTE] @ '': ''
            @ [DQUOTE] @ ''u-17'' @ [DQUOTE] @ '', ''" and c = "CHR '':''" and gap = "'' ''"
          and rest = "''}''"])
      (simp_all add: relay_body_def)
qed

lemma send_relay_with:
  "SendRequest RelayClient_new (relay_net_with responseBody) method path content contentType
       authToken =
     \<lparr>statusCode = 200, body = responseBody, resp_error = [], resp_success = True\<rparr>"
  by (simp add: SendRequest_def RelayClient_new_def relay_net_with_def)

lemma absent_empty_body:
  "str_find ''{}'' ([DQUOTE] @ ''file_uuid'' @ [DQUOTE]) = None"
  "str_find ''{}'' ([DQUOTE] @ ''firs_reference'' @ [DQUOTE]) = None"
  by simp_all

text \<open>
  C7, as amended. Let the document be readable and \<open>SendRequest\<close> return a response
  that was received. With status 200 or 201 \<open>SubmitInvoice\<close> succeeds with an empty
  error; its file identifier is the value of the field \<open>file_uuid\<close> and its reference
  the value of the field \<open>firs_reference\<close> whenever the body holds that field as a
  text value at the first occurrence of the quoted key (\<open>holds_field\<close>), and each is
  empty when the quoted key does not occur in the body. With 409 it fails with the
  duplicate message, with 429 with the daily-limit message, and with any other status
  with the message that carries the status code. The status is reported in every case.
\<close>

theorem SubmitInvoice_status:
  assumes "BuildMultipartBody fs dice pdfPath userEmail = (content, boundary)"
    and "content \<noteq> []"
    and "SendRequest client net (widen ''POST'') (widen ''/api/ingest'') content
           (''multipart/form-data; boundary='' @ boundary) sessionToken = resp"
    and "resp_success resp"
  shows "(statusCode resp = 200 \<or> statusCode resp = 201 \<longrightarrow>
            success (SubmitInvoice client fs net dice pdfPath userEmail sessionToken) = True
            \<and> error (SubmitInvoice client fs net dice pdfPath userEmail sessionToken) = []
            \<and> httpStatus (SubmitInvoice client fs net dice pdfPath userEmail sessionToken)
                = statusCode resp
            \<and> (holds_field (body resp) ''file_uuid'' uuid \<longrightarrow>
                fileUuid (SubmitInvoice client fs net dice pdfPath userEmail sessionToken) = uuid)
            \<and> (holds_field (body resp) ''firs_reference'' ref \<longrightarrow>
                sub_firsReference (SubmitInvoice client fs net dice pdfPath userEmail sessionToken)
                  = ref)
            \<and> (str_find (body resp) ([DQUOTE] @ ''file_uuid'' @ [DQUOTE]) = None \<longrightarrow>
                fileUuid (SubmitInvoice client fs net dice pdfPath userEmail sessionToken) = [])
            \<and> (str_find (body resp) ([DQUOTE] @ ''firs_reference'' @ [DQUOTE]) = None \<longrightarrow>
                sub_firsReference (SubmitInvoice client fs net dice pdfPath userEmail sessionToken)
                  = []))
     \<and> (statusCode resp = 409 \<longrightarrow>
            SubmitInvoice client fs net dice pdfPath userEmail sessionToken =
              \<lparr>success = False, sub_firsReference = [], fileUuid = [],
               error = ''Invoice already submitted (duplicate)'', httpStatus = 409\<rparr>)
     \<and> (statusCode resp = 429 \<longrightarrow>
            SubmitInvoice client fs net dice pdfPath userEmail sessionToken =
              \<lparr>success = False, sub_firsReference = [], fileUuid = [],
               error = ''Daily submission limit exceeded'', httpStatus = 429\<rparr>)
     \<and> (statusCode resp \<notin> {200, 201, 409, 429} \<longrightarrow>
            SubmitInvoice client fs net dice pdfPath userEmail sessionToken =
              \<lparr>success = False, sub_firsReference = [], fileUuid = [],
               error = ''Relay returned HTTP '' @ to_string (statusCode resp),
               httpStatus = statusCode resp\<rparr>)"
proof -
  note r = SubmitInvoice_received [OF assms]
  have ok: "statusCode resp = 200 \<or> statusCode resp = 201 \<Longrightarrow>
      SubmitInvoice client fs net dice pdfPath userEmail sessionToken =
        \<lparr>success = True, sub_firsReference = extractField (body resp) ''firs_reference'',
         fileUuid = extractField (body resp) ''file_uuid'', error = [],
         httpStatus = statusCode resp\<rparr>"
    by (simp add: r)
  show ?thesis
  proof (intro conjI impI)
    assume s: "statusCode resp = 200 \<or> statusCode resp = 201"
    show "success (SubmitInvoice client fs net dice pdfPath userEmail sessionToken) = True"
      and "error (SubmitInvoice client fs net dice pdfPath userEmail sessionToken) = []"
      and "httpStatus (SubmitInvoice client fs net dice pdfPath userEmail sessionToken)
            = statusCode resp"
      by (simp_all add: ok [OF s])
    show "fileUuid (SubmitInvoice client fs net dice pdfPath userEmail sessionToken) = uuid"
      if "holds_field (body resp) ''file_uuid'' uuid"
      using that by (simp add: ok [OF s] extractField_holds)
    show "sub_firsReference (SubmitInvoice client fs net dice pdfPath userEmail sessionToken) = ref"
      if "holds_field (body resp) ''firs_reference'' ref"
      using that by (simp add: ok [OF s] extractField_holds)
    show "fileUuid (SubmitInvoice client fs net dice pdfPath userEmail sessionToken) = []"
      if "str_find (body resp) ([DQUOTE] @ ''file_uuid'' @ [DQUOTE]) = None"
      using that by (simp only: ok [OF s] extractField_absent) simp
    show "sub_firsReference (SubmitInvoice client fs net dice pdfPath userEmail sessionToken) = []"
      if "str_find (body resp) ([DQUOTE] @ ''firs_reference'' @ [DQUOTE]) = None"
      using that by (simp only: ok [OF s] extractField_absent) simp
  next
    assume "statusCode resp = 409"
    then show "SubmitInvoice client fs net dice pdfPath userEmail sessionToken =
              \<lparr>success = False, sub_firsReference = [], fileUuid = [],
               error = ''Invoice already submitted (duplicate)'', httpStatus = 409\<rparr>"
      by (simp add: r)
  next
    assume "statusCode resp = 429"
    then show "SubmitInvoice client fs net dice pdfPath userEmail sessionToken =
              \<lparr>success = False, sub_firsReference = [], fileUuid = [],
               error = ''Daily submission limit exceeded'', httpStatus = 429\<rparr>"
      by (simp add: r)
  next
    assume "statusCode resp \<notin> {200, 201, 409, 429}"
    then show "SubmitInvoice client fs net dice pdfPath userEmail sessionToken =
              \<lparr>success = False, sub_firsReference = [], fileUuid = [],
               error = ''Relay returned HTTP '' @ to_string (statusCode resp),
               httpStatus = statusCode resp\<rparr>"
      by (simp add: r)
  qed
qed

theorem SubmitInvoice_status_witness:
  "SubmitInvoice RelayClient_new fs_pdf (relay_net 201) dice_example pdf_path
       ''ann@example.com'' ''token'' =
     \<lparr>success = True, sub_firsReference = ''FIRS-1'', fileUuid = ''u-17'', error = [],
      httpStatus = 201\<rparr>
   \<and> SubmitInvoice RelayClient_new fs_pdf (relay_net_with ''{}'') dice_example pdf_path
       ''ann@example.com'' ''token'' =
     \<lparr>success = True, sub_firsReference = [], fileUuid = [], error = [], httpStatus = 200\<rparr>
   \<and> SubmitInvoice RelayClient_new fs_pdf (relay_net 409) dice_example pdf_path
       ''ann@example.com'' ''token'' =
     \<lparr>success = False, sub_firsReference = [], fileUuid = [],
      error = ''Invoice already submitted (duplicate)'', httpStatus = 409\<rparr>
   \<and> SubmitInvoice RelayClient_new fs_pdf (relay_net 429) dice_example pdf_path
       ''ann@example.com'' ''token'' =
     \<lparr>success = False, sub_firsReference = [], fileUuid = [],
      error = ''Daily submission limit exceeded'', httpStatus = 429\<rparr>
   \<and> SubmitInvoice RelayClient_new fs_pdf (relay_net 503) dice_example pdf_path
       ''ann@example.com'' ''token'' =
     \<lparr>success = False, sub_firsReference = [], fileUuid = [],
      error = ''Relay returned HTTP 503'', httpStatus = 503\<rparr>"
proof -
  have ok: "resp_success \<lparr>statusCode = sint code, body = relay_body, resp_error = [],
      resp_success = True\<rparr>" for code :: "32 word"
    by simp
  have ok_with: "resp_success \<lparr>statusCode = 200, body = ''{}'', resp_error = [],
      resp_success = True\<rparr>"
    by simp
  note inst = SubmitInvoice_status [OF build_pdf(1) build_pdf(2) send_relay ok]
  note inst_with = SubmitInvoice_status [OF build_pdf(1) build_pdf(2) send_relay_with ok_with]
  have a: "SubmitInvoice RelayClient_new fs_pdf (relay_net 201) dice_example pdf_path
       ''ann@example.com'' ''token'' =
     \<lparr>success = True, sub_firsReference = ''FIRS-1'', fileUuid = ''u-17'', error = [],
      httpStatus = 201\<rparr>"
    using inst [of 201 "''token''" "''u-17''" "''FIRS-1''"] holds_relay_body
    by (intro SubmitResult.equality) simp_all
  have b: "SubmitInvoice RelayClient_new fs_pdf (relay_net_with ''{}'') dice_example pdf_path
       ''ann@example.com'' ''token'' =
     \<lparr>success = True, sub_firsReference = [], fileUuid = [], error = [], httpStatus = 200\<rparr>"
    using inst_with [of "''token''"] absent_empty_body
    by (intro SubmitResult.equality) simp_all
  show ?thesis
    using a b inst [of 409 "''token''"] inst [of 429 "''token''"] inst [of 503 "''token''"]
    by (simp add: to_string_503)
qed

text \<open>
  C7 as the specification words it, with the file identifier and the reference taken from
  the named fields of any received body, does not hold. \<open>relay_body_echo\<close> is
  \<open>relay_body\<close> with one field added in front whose value is the text
  \<open>file_uuid\<close>; its field \<open>file_uuid\<close> is \<open>u-17\<close>, and \<open>SubmitInvoice\<close>
  reports the identifier \<open>file_uuid\<close>. In \<open>relay_body_null\<close> the field
  \<open>file_uuid\<close> is \<open>null\<close>, and \<open>SubmitInvoice\<close> reports the name of the next
  field, \<open>firs_reference\<close>, as the identifier.
\<close>

theorem SubmitInvoice_field_misread:
  "relay_body_echo = ''{'' @ [DQUOTE] @ ''requested'' @ [DQUOTE] @ '': '' @ [DQUOTE]
       @ ''file_uuid'' @ [DQUOTE] @ '', '' @ tl relay_body
   \<and> SubmitInvoice RelayClient_new fs_pdf (relay_net_with relay_body_echo) dice_example
       pdf_path ''ann@example.com'' ''token'' =
     \<lparr>success = True, sub_firsReference = ''FIRS-1'', fileUuid = ''file_uuid'', error = [],
      httpStatus = 200\<rparr>
   \<and> SubmitInvoice RelayClient_new fs_pdf (relay_net_with relay_body_null) dice_example
       pdf_path ''ann@example.com'' ''token'' =
     \<lparr>success = True, sub_firsReference = ''FIRS-1'', fileUuid = ''firs_reference'',
      error = [], httpStatus = 200\<rparr>"
proof -
  have e: "extractField relay_body_echo ''file_uuid'' = ''file_uuid''"
    "extractField relay_body_echo ''firs_reference'' = ''FIRS-1''"
    by (simp_all add: extractField_def relay_body_echo_def str_find_from_def substr_n_def)
  have n: "extractField relay_body_null ''file_uuid'' = ''firs_reference''"
    "extractField relay_body_null ''firs_reference'' = ''FIRS-1''"
    by (simp_all add: extractField_def relay_body_null_def str_find_from_def substr_n_def)
  have r: "SubmitInvoice RelayClient_new fs_pdf (relay_net_with responseBody) dice_example
       pdf_path ''ann@example.com'' ''token'' =
     \<lparr>success = True, sub_firsReference = extractField responseBody ''firs_reference'',
      fileUuid = extractField responseBody ''file_uuid'', error = [], httpStatus = 200\<rparr>"
    for responseBody
    using SubmitInvoice_received [OF build_pdf(1) build_pdf(2) send_relay_with, of responseBody "''token''"]
    by simp
  show ?thesis
    by (simp add: r e n) (simp add: relay_body_echo_def relay_body_def)
qed

section \<open>Properties of the submission sequence\<close>

lemmas run_defs = OnSubmitClicked_def SetState_def traced_def transport_calls_def Let_def

lemma OnSubmitClicked_no_session:
  assumes "\<not> valid (env_session env)"
  shows "OnSubmitClicked ctl fs env path =
     \<lparr>controller = ctl\<lparr>m_buttonState := \<lparr>state = BtnNoSession, label = ''Sign In Required'',
                                           tooltip = session_error (env_session env)\<rparr>\<rparr>,
      files = fs,
      calls = [Call_SessionToken_Load,
               Call_SetState \<lparr>state = BtnNoSession, label = ''Sign In Required'',
                              tooltip = session_error (env_session env)\<rparr>]\<rparr>"
  using assms by (simp add: run_defs)

lemma OnSubmitClicked_duplicate:
  assumes "valid (env_session env)"
    and "status (Check (m_cache ctl) (ExtractFilename path)) = AlreadySubmitted"
  shows "state (m_buttonState (controller (OnSubmitClicked ctl fs env path))) = BtnAlreadySubmitted"
    and "calls (OnSubmitClicked ctl fs env path) =
      [Call_SessionToken_Load, Call_Check (ExtractFilename path),
       Call_SetState \<lparr>state = BtnAlreadySubmitted, label = ''Already Submitted'',
          tooltip = ''Submitted by '' @ dup_submittedBy (Check (m_cache ctl) (ExtractFilename path))
             @ '' (Ref: '' @ dup_firsReference (Check (m_cache ctl) (ExtractFilename path)) @ '')''\<rparr>]"
  using assms by (simp_all add: run_defs)

lemma OnSubmitClicked_submits:
  assumes "valid (env_session env)"
    and "status (Check (m_cache ctl) (ExtractFilename path)) \<noteq> AlreadySubmitted"
  shows "\<exists>rest. calls (OnSubmitClicked ctl fs env path) =
      [Call_SessionToken_Load, Call_Check (ExtractFilename path),
       Call_SetState \<lparr>state = BtnSubmitting, label = ''Submitting...'',
          tooltip = ''Sending to Helium Relay for FIRS processing''\<rparr>,
       Call_SubmitInvoice path (username (env_session env)) (token (env_session env))] @ rest
      \<and> filter is_submit rest = []"
  using assms by (simp add: run_defs split: prod.split)

lemma ExtractFilename_pdf_path: "ExtractFilename pdf_path = ''scan0001.pdf''"
proof -
  have "WideToUtf8 pdf_path = ''C:/docs/scan0001.pdf''"
    by (simp add: pdf_path_def widen_def is_high_surrogate_def is_low_surrogate_def
        utf8_encode_def char_eval)
  then show ?thesis by (simp add: ExtractFilename_def substr_def)
qed

lemma Check_ctl_new:
  "status (Check (m_cache HeliumController_new) ''scan0001.pdf'') = NotSubmitted"
  by (simp add: HeliumController_new_def Check_def DuplicateCache_new_def)

lemma Check_ctl_submitted:
  "status (Check (m_cache ctl_submitted) ''scan0001.pdf'') = AlreadySubmitted"
  by (simp add: ctl_submitted_def Check_def AddEntry_fst split: option.split)

text \<open>
  C8. In a run of the submission sequence: with an invalid session the button ends in
  \<open>NoSession\<close> and the transport is not called; with a valid session and a
  duplicate check answering \<open>AlreadySubmitted\<close> the button ends in
  \<open>AlreadySubmitted\<close> and the transport is not called; and when the transport is
  called, the session was valid, the check did not answer \<open>AlreadySubmitted\<close>, the
  calls before it are the loading of the session, then the check, then the setting of
  \<open>Submitting\<close>, and it is called once.
\<close>

theorem OnSubmitClicked_gates:
  "(\<not> valid (env_session env) \<longrightarrow>
      state (m_buttonState (controller (OnSubmitClicked ctl fs env path))) = BtnNoSession
      \<and> transport_calls (OnSubmitClicked ctl fs env path) = [])
   \<and> (valid (env_session env)
        \<and> status (Check (m_cache ctl) (ExtractFilename path)) = AlreadySubmitted \<longrightarrow>
      state (m_buttonState (controller (OnSubmitClicked ctl fs env path))) = BtnAlreadySubmitted
      \<and> transport_calls (OnSubmitClicked ctl fs env path) = [])
   \<and> (transport_calls (OnSubmitClicked ctl fs env path) \<noteq> [] \<longrightarrow>
      valid (env_session env)
      \<and> status (Check (m_cache ctl) (ExtractFilename path)) \<noteq> AlreadySubmitted
      \<and> takeWhile (\<lambda>c. \<not> is_submit c) (calls (OnSubmitClicked ctl fs env path)) =
          [Call_SessionToken_Load, Call_Check (ExtractFilename path),
           Call_SetState \<lparr>state = BtnSubmitting, label = ''Submitting...'',
              tooltip = ''Sending to Helium Relay for FIRS processing''\<rparr>]
      \<and> transport_calls (OnSubmitClicked ctl fs env path) =
          [Call_SubmitInvoice path (username (env_session env)) (token (env_session env))])"
proof (intro conjI impI)
  assume "\<not> valid (env_session env)"
  then show "state (m_buttonState (controller (OnSubmitClicked ctl fs env path))) = BtnNoSession"
    and "transport_calls (OnSubmitClicked ctl fs env path) = []"
    by (simp_all add: OnSubmitClicked_no_session transport_calls_def)
next
  assume a: "valid (env_session env)
        \<and> status (Check (m_cache ctl) (ExtractFilename path)) = AlreadySubmitted"
  then show "state (m_buttonState (controller (OnSubmitClicked ctl fs env path))) = BtnAlreadySubmitted"
    by (simp add: OnSubmitClicked_duplicate)
  show "transport_calls (OnSubmitClicked ctl fs env path) = []"
    using a by (simp add: OnSubmitClicked_duplicate transport_calls_def)
next
  assume t: "transport_calls (OnSubmitClicked ctl fs env path) \<noteq> []"
  show v: "valid (env_session env)"
  proof (rule ccontr)
    assume "\<not> valid (env_session env)"
    then have "transport_calls (OnSubmitClicked ctl fs env path) = []"
      by (simp add: OnSubmitClicked_no_session transport_calls_def)
    then show False using t by simp
  qed
  show d: "status (Check (m_cache ctl) (ExtractFilename path)) \<noteq> AlreadySubmitted"
  proof
    assume "status (Check (m_cache ctl) (ExtractFilename path)) = AlreadySubmitted"
    then have "transport_calls (OnSubmitClicked ctl fs env path) = []"
      using v by (simp add: OnSubmitClicked_duplicate transport_calls_def)
    then show False using t by simp
  qed
  from OnSubmitClicked_submits [OF v d, of fs] obtain rest where
    c: "calls (OnSubmitClicked ctl fs env path) =
      [Call_SessionToken_Load, Call_Check (ExtractFilename path),
       Call_SetState \<lparr>state = BtnSubmitting, label = ''Submitting...'',
          tooltip = ''Sending to Helium Relay for FIRS processing''\<rparr>,
       Call_SubmitInvoice path (username (env_session env)) (token (env_session env))] @ rest"
    and r: "filter is_submit rest = []"
    by blast
  show "takeWhile (\<lambda>c. \<not> is_submit c) (calls (OnSubmitClicked ctl fs env path)) =
          [Call_SessionToken_Load, Call_Check (ExtractFilename path),
           Call_SetState \<lparr>state = BtnSubmitting, label = ''Submitting...'',
              tooltip = ''Sending to Helium Relay for FIRS processing''\<rparr>]"
    by (simp add: c)
  show "transport_calls (OnSubmitClicked ctl fs env path) =
          [Call_SubmitInvoice path (username (env_session env)) (token (env_session env))]"
    using r by (simp add: c transport_calls_def)
qed


theorem OnSubmitClicked_gates_witness:
  "state (m_buttonState (controller
       (OnSubmitClicked HeliumController_new fs_pdf (env_example session_none) pdf_path)))
     = BtnNoSession
   \<and> transport_calls
       (OnSubmitClicked HeliumController_new fs_pdf (env_example session_none) pdf_path) = []
   \<and> state (m_buttonState (controller
       (OnSubmitClicked ctl_submitted fs_pdf (env_example session_ann) pdf_path)))
     = BtnAlreadySubmitted
   \<and> transport_calls
       (OnSubmitClicked ctl_submitted fs_pdf (env_example session_ann) pdf_path) = []
   \<and> transport_calls
       (OnSubmitClicked HeliumController_new fs_pdf (env_example session_ann) pdf_path)
     = [Call_SubmitInvoice pdf_path ''ann@example.com'' ''token'']
   \<and> takeWhile (\<lambda>c. \<not> is_submit c)
       (calls (OnSubmitClicked HeliumController_new fs_pdf (env_example session_ann) pdf_path))
     = [Call_SessionToken_Load, Call_Check ''scan0001.pdf'',
        Call_SetState \<lparr>state = BtnSubmitting, label = ''Submitting...'',
          tooltip = ''Sending to Helium Relay for FIRS processing''\<rparr>]"
proof -
  have n: "\<not> valid (env_session (env_example session_none))"
    by (simp add: env_example_def session_none_def)
  have v: "valid (env_session (env_example session_ann))"
    by (simp add: env_example_def session_ann_def)
  have u: "username (env_session (env_example session_ann)) = ''ann@example.com''"
    "token (env_session (env_example session_ann)) = ''token''"
    by (simp_all add: env_example_def session_ann_def)
  have d: "status (Check (m_cache ctl_submitted) (ExtractFilename pdf_path)) = AlreadySubmitted"
    by (simp add: ExtractFilename_pdf_path Check_ctl_submitted)
  have f: "status (Check (m_cache HeliumController_new) (ExtractFilename pdf_path))
      \<noteq> AlreadySubmitted"
    by (simp add: ExtractFilename_pdf_path Check_ctl_new)
  obtain rest where c: "calls (OnSubmitClicked HeliumController_new fs_pdf
        (env_example session_ann) pdf_path) =
      [Call_SessionToken_Load, Call_Check (ExtractFilename pdf_path),
       Call_SetState \<lparr>state = BtnSubmitting, label = ''Submitting...'',
          tooltip = ''Sending to Helium Relay for FIRS processing''\<rparr>,
       Call_SubmitInvoice pdf_path (username (env_session (env_example session_ann)))
         (token (env_session (env_example session_ann)))] @ rest"
    using OnSubmitClicked_submits [OF v f, of fs_pdf] by blast
  have t: "transport_calls
      (OnSubmitClicked HeliumController_new fs_pdf (env_example session_ann) pdf_path) \<noteq> []"
    by (simp add: transport_calls_def c)
  note g1 = OnSubmitClicked_gates [of "env_example session_none" HeliumController_new fs_pdf
      pdf_path, THEN conjunct1, THEN mp, OF n]
  note g2 = OnSubmitClicked_gates [of "env_example session_ann" ctl_submitted fs_pdf pdf_path,
      THEN conjunct2, THEN conjunct1, THEN mp, OF conjI [OF v d]]
  note g3 = OnSubmitClicked_gates [of "env_example session_ann" HeliumController_new fs_pdf
      pdf_path, THEN conjunct2, THEN conjunct2, THEN mp, OF t]
  show ?thesis
    using g1 g2 g3 by (simp only: u ExtractFilename_pdf_path)
qed

end
